theory Spec2Isabelle
  imports Complex_Main "HOL-Library.Multiset" "HOL-Library.Sublist"
begin

section \<open>Strings\<close>

text \<open>
  A JavaScript string is a sequence of 16-bit code units. The model uses \<open>string\<close>
  (a \<open>char list\<close>), so it covers the strings whose code units are below 256; a
  \<open>char\<close> stands for the code unit with the same number.

  \<open>isSpace\<close> is the class \<^verbatim>\<open>\s\<close> of regular expressions, which is also what
  \<^verbatim>\<open>trim()\<close> removes: tab, line feed, vertical tab, form feed, carriage return, space
  and the no-break space. \<open>isDigit\<close> is \<^verbatim>\<open>\d\<close>, and \<open>isSep\<close> the class
  \<^verbatim>\<open>[\-_.\s]\<close>.
\<close>

definition isSpace :: "char \<Rightarrow> bool" where
  "isSpace c = (c \<in> set [CHR 0x09, CHR 0x0A, CHR 0x0B, CHR 0x0C, CHR 0x0D, CHR 0x20, CHR 0xA0])"

definition isDigit :: "char \<Rightarrow> bool" where
  "isDigit c = (c \<in> set ''0123456789'')"

definition isSep :: "char \<Rightarrow> bool" where
  "isSep c = (c = CHR ''-'' \<or> c = CHR ''_'' \<or> c = CHR ''.'' \<or> isSpace c)"

text \<open>\<^verbatim>\<open>s.trim()\<close>: white space removed at both ends.\<close>

definition trim :: "string \<Rightarrow> string" where
  "trim s = rev (dropWhile isSpace (rev (dropWhile isSpace s)))"

text \<open>
  \<^verbatim>\<open>s.toLowerCase()\<close> on code units below 256: the letters A to Z, and the
  capital letters of the Latin-1 block (192 to 222 without the multiplication sign 215),
  move up by 32.
\<close>

definition lowerChar :: "char \<Rightarrow> char" where
  "lowerChar c =
     (let n = (of_char c :: nat)
      in if (65 \<le> n \<and> n \<le> 90) \<or> (192 \<le> n \<and> n \<le> 222 \<and> n \<noteq> 215)
         then char_of (n + 32) else c)"

definition toLowerCase :: "string \<Rightarrow> string" where
  "toLowerCase s = map lowerChar s"

text \<open>\<^verbatim>\<open>s.startsWith(p)\<close>.\<close>

definition startsWith :: "string \<Rightarrow> string \<Rightarrow> bool" where
  "startsWith s p = (take (length p) s = p)"

text \<open>\<^verbatim>\<open>s.indexOf(c)\<close> for a one-character needle: the first position, or -1.\<close>

fun indexOf :: "string \<Rightarrow> char \<Rightarrow> int" where
  "indexOf [] c = - 1"
| "indexOf (x # xs) c =
     (if x = c then 0 else (let i = indexOf xs c in if i < 0 then - 1 else i + 1))"

text \<open>
  \<^verbatim>\<open>a || b\<close> on strings: the empty string is the only falsy string.
\<close>

definition orElse :: "string \<Rightarrow> string \<Rightarrow> string" where
  "orElse a b = (if a = [] then b else a)"

text \<open>
  \<^verbatim>\<open>filename.replace(/\.[^/.]+$/, "")\<close>: the match is a dot followed, up to the end
  of the string, by one or more characters that are neither a slash nor a dot. The
  leftmost (and only possible) match is removed.
\<close>

fun stripExt :: "string \<Rightarrow> string" where
  "stripExt [] = []"
| "stripExt (c # cs) =
     (if c = CHR ''.'' \<and> cs \<noteq> [] \<and> list_all (\<lambda>d. d \<noteq> CHR ''/'' \<and> d \<noteq> CHR ''.'') cs
      then [] else c # stripExt cs)"

text \<open>\<^verbatim>\<open>s.split(sep)\<close> for a one-character separator; the empty string gives one empty part.\<close>

fun splitOn :: "char \<Rightarrow> string \<Rightarrow> string list" where
  "splitOn sep [] = [[]]"
| "splitOn sep (c # cs) =
     (if c = sep then [] # splitOn sep cs
      else (case splitOn sep cs of [] \<Rightarrow> [[c]] | p # ps \<Rightarrow> (c # p) # ps))"

section \<open>Identifier normalizer\<close>

text \<open>
  \<^verbatim>\<open>
  function normalizeId(id: string): string {
    if (!id) return "";
    const trimmed = String(id).trim();
    const cleaned = trimmed.replace(/^[\-_.\s]+/, "");
    if (/^\d+$/.test(cleaned)) {
      const noLeading = cleaned.replace(/^0+/, "");
      return noLeading === "" ? "0" : noLeading;
    }
    return cleaned;
  }
  \<close>
  A replacement anchored at the start with a greedy \<^verbatim>\<open>+\<close> removes the longest
  leading run of the class, which is \<open>dropWhile\<close>; the test \<^verbatim>\<open>/^\d+$/\<close> holds of
  the non-empty strings of digits.
\<close>

definition normalizeId :: "string \<Rightarrow> string" where
  "normalizeId ident =
     (if ident = [] then []
      else let trimmed = trim ident;
               cleaned = dropWhile isSep trimmed
           in if cleaned \<noteq> [] \<and> list_all isDigit cleaned
              then (let noLeading = dropWhile (\<lambda>c. c = CHR ''0'') cleaned
                    in if noLeading = [] then ''0'' else noLeading)
              else cleaned)"

text \<open>
  The normalizer in the words of its contract: trim white space; strip the leading run
  of separator characters; a remainder made of digits only (at least one) loses its
  leading zeros, and is \<open>0\<close> when it was all zeros; any other remainder is returned
  as it is. The two stripping operations are written by recursion on the string, from
  the front and from the back.
\<close>

fun strip_leading :: "(char \<Rightarrow> bool) \<Rightarrow> string \<Rightarrow> string" where
  "strip_leading P [] = []"
| "strip_leading P (c # cs) = (if P c then strip_leading P cs else c # cs)"

fun strip_trailing :: "(char \<Rightarrow> bool) \<Rightarrow> string \<Rightarrow> string" where
  "strip_trailing P [] = []"
| "strip_trailing P (c # cs) =
     (let r = strip_trailing P cs in if r = [] \<and> P c then [] else c # r)"

definition normalize_spec :: "string \<Rightarrow> string" where
  "normalize_spec raw =
     (let cleaned = strip_leading isSep (strip_trailing isSpace (strip_leading isSpace raw))
      in if cleaned \<noteq> [] \<and> set cleaned \<subseteq> set ''0123456789''
         then (if set cleaned \<subseteq> {CHR ''0''} then ''0''
               else strip_leading (\<lambda>c. c = CHR ''0'') cleaned)
         else cleaned)"

section \<open>Filename parser\<close>

text \<open>
  \<^verbatim>\<open>
  function parseModelPrefix(filename: string): string {
    const base = filename.replace(/\.[^/.]+$/, "");
    const idxUnd = base.indexOf("_");
    const idxDash = base.indexOf("-");
    const indices = [idxUnd, idxDash].filter((i) => i >= 0).sort((a, b) => a - b);
    if (indices.length > 0) {
      return base.slice(0, indices[0]) || "model";
    }
    return base || "model";
  }
  \<close>
  Every index handed to \<^verbatim>\<open>slice\<close> is non-negative, so \<^verbatim>\<open>slice(0, i)\<close> is
  \<open>take\<close> and \<^verbatim>\<open>slice(i)\<close> is \<open>drop\<close>.
\<close>

definition separatorIndices :: "string \<Rightarrow> int list" where
  "separatorIndices base =
     sort (filter (\<lambda>i. i \<ge> 0) [indexOf base CHR ''_'', indexOf base CHR ''-''])"

definition parseModelPrefix :: "string \<Rightarrow> string" where
  "parseModelPrefix filename =
     (let base = stripExt filename;
          indices = separatorIndices base
      in if length indices > 0
         then orElse (take (nat (hd indices)) base) ''model''
         else orElse base ''model'')"

text \<open>
  \<^verbatim>\<open>
  function parseIdSuffix(filename: string, modelPrefix?: string): string {
    const base = filename.replace(/\.[^/.]+$/, "");
    let rest = base;
    if (modelPrefix && base.toLowerCase().startsWith(modelPrefix.toLowerCase())) {
      rest = base.slice(modelPrefix.length);
    } else {
      const idxUnd = base.indexOf("_");
      const idxDash = base.indexOf("-");
      const indices = [idxUnd, idxDash].filter((i) => i >= 0).sort((a, b) => a - b);
      const idx = indices.length ? indices[0] : -1;
      rest = idx >= 0 ? base.slice(idx + 1) : base;
    }
    rest = rest.replace(/^[\-_.\s]+/, "");
    return normalizeId(rest || base);
  }
  \<close>
  The optional argument is an \<open>option\<close>; it is truthy when it is given and not empty.
\<close>

definition restAfterSeparator :: "string \<Rightarrow> string" where
  "restAfterSeparator base =
     (let indices = separatorIndices base;
          idx = (if length indices > 0 then hd indices else - 1)
      in if idx \<ge> 0 then drop (nat (idx + 1)) base else base)"

definition residual :: "string \<Rightarrow> string option \<Rightarrow> string" where
  "residual base modelPrefix =
     (let rest =
        (case modelPrefix of
           Some p \<Rightarrow>
             if p \<noteq> [] \<and> startsWith (toLowerCase base) (toLowerCase p)
             then drop (length p) base
             else restAfterSeparator base
         | None \<Rightarrow> restAfterSeparator base)
      in dropWhile isSep rest)"

definition parseIdSuffix :: "string \<Rightarrow> string option \<Rightarrow> string" where
  "parseIdSuffix filename modelPrefix =
     (let base = stripExt filename
      in normalizeId (orElse (residual base modelPrefix) base))"

text \<open>
  The second variant of the component has another parser: it splits the base name at
  every underscore and at every dash, and takes the first part of the split that has
  no more parts than the other; its identifier is not normalized.
  \<^verbatim>\<open>
  function parseModelPrefix(filename: string): string {
    const base = filename.replace(/\.[^/.]+$/, "");
    const partsByUnderscore = base.split("_");
    const partsByDash = base.split("-");
    const pick = partsByUnderscore.length <= partsByDash.length ? partsByUnderscore : partsByDash;
    return pick[0] || "model";
  }
  function parseIdSuffix(filename: string, modelPrefix?: string): string {
    ...
    rest = rest.replace(/^[\-_.\s]+/, "");
    return rest || base;
  }
  \<close>
\<close>

definition parseModelPrefix_v2 :: "string \<Rightarrow> string" where
  "parseModelPrefix_v2 filename =
     (let base = stripExt filename;
          partsByUnderscore = splitOn CHR ''_'' base;
          partsByDash = splitOn CHR ''-'' base;
          pick = (if length partsByUnderscore \<le> length partsByDash
                  then partsByUnderscore else partsByDash)
      in orElse (case pick of [] \<Rightarrow> [] | p # _ \<Rightarrow> p) ''model'')"

definition parseIdSuffix_v2 :: "string \<Rightarrow> string option \<Rightarrow> string" where
  "parseIdSuffix_v2 filename modelPrefix =
     (let base = stripExt filename
      in orElse (residual base modelPrefix) base)"

text \<open>
  The parser in the words of its contract: the model is the part of the base name
  before the first underscore or dash, the identifier the normalized part after it.
\<close>

definition isSplitChar :: "char \<Rightarrow> bool" where
  "isSplitChar c = (c = CHR ''_'' \<or> c = CHR ''-'')"

definition beforeFirstSeparator :: "string \<Rightarrow> string" where
  "beforeFirstSeparator base = takeWhile (\<lambda>c. \<not> isSplitChar c) base"

definition afterFirstSeparator :: "string \<Rightarrow> string" where
  "afterFirstSeparator base = drop 1 (dropWhile (\<lambda>c. \<not> isSplitChar c) base)"

definition parsesAtFirstSeparator :: "string \<Rightarrow> bool" where
  "parsesAtFirstSeparator filename =
     (let base = stripExt filename
      in parseModelPrefix filename = beforeFirstSeparator base \<and>
         parseIdSuffix filename (Some (parseModelPrefix filename)) =
           normalizeId (afterFirstSeparator base))"

section \<open>Instruction table\<close>

text \<open>
  \<^verbatim>\<open>
  function parseInstructionsCSV(text: string): Record<string, string> {
    const map: Record<string, string> = {};
    const lines = text.split(/\r?\n/).filter((l) => l.trim().length > 0);
    if (lines.length === 0) return map;
    const first = lines[0];
    const semi = (first.match(/;/g) || []).length;
    const comma = (first.match(/,/g) || []).length;
    const delim = semi >= comma ? ";" : ",";
    for (let i = 0; i < lines.length; i++) {
      const line = lines[i];
      const idx = line.indexOf(delim);
      if (idx < 0) continue;
      let id = line.slice(0, idx).trim();
      let instruction = line.slice(idx + 1).trim();
      id = id.replace(/^\"|\"$/g, "");
      instruction = instruction.replace(/^\"|\"$/g, "");
      if (i === 0 && id.toLowerCase() === "id") continue; // skip header
      if (!id) continue;
      const norm = normalizeId(String(id));
      map[String(id)] = instruction;
      map[norm] = instruction;
    }
    return map;
  }
  \<close>
  \<^verbatim>\<open>split(/\r?\n/)\<close> cuts at every line feed, together with a carriage return
  right before it.
\<close>

fun splitLines :: "string \<Rightarrow> string list" where
  "splitLines [] = [[]]"
| "splitLines [c] = (if c = CHR 0x0A then [[], []] else [[c]])"
| "splitLines (c # d # cs) =
     (if c = CHR 0x0A then [] # splitLines (d # cs)
      else if c = CHR 0x0D \<and> d = CHR 0x0A then [] # splitLines cs
      else (case splitLines (d # cs) of [] \<Rightarrow> [[c]] | l # ls \<Rightarrow> (c # l) # ls))"

definition csvLines :: "string \<Rightarrow> string list" where
  "csvLines text = filter (\<lambda>l. length (trim l) > 0) (splitLines text)"

text \<open>\<^verbatim>\<open>(first.match(/;/g) || []).length\<close>: how often the character occurs.\<close>

definition countChar :: "char \<Rightarrow> string \<Rightarrow> nat" where
  "countChar c s = length (filter (\<lambda>x. x = c) s)"

definition detectDelim :: "string \<Rightarrow> char" where
  "detectDelim first =
     (let semi = countChar CHR '';'' first;
          comma = countChar CHR '','' first
      in if semi \<ge> comma then CHR '';'' else CHR '','')"

text \<open>
  \<^verbatim>\<open>s.replace(/^\"|\"$/g, "")\<close>: a double quote at the very start is removed, and so
  is one at the very end of what is left.
\<close>

definition stripQuotes :: "string \<Rightarrow> string" where
  "stripQuotes s =
     (let s1 = (case s of [] \<Rightarrow> [] | c # cs \<Rightarrow> if c = CHR 0x22 then cs else s)
      in if s1 \<noteq> [] \<and> last s1 = CHR 0x22 then butlast s1 else s1)"

text \<open>
  The table is a plain object used as a dictionary. Its own properties are a map from
  keys to strings. An assignment \<^verbatim>\<open>map[k] = v\<close> adds or replaces the own property
  \<open>k\<close>, except for the key \<^verbatim>\<open>__proto__\<close>: that name is an accessor inherited from
  \<^verbatim>\<open>Object.prototype\<close>, whose setter ignores a string, so no property is stored.
\<close>

definition setString :: "(string \<rightharpoonup> string) \<Rightarrow> string \<Rightarrow> string \<Rightarrow> (string \<rightharpoonup> string)" where
  "setString m k v = (if k = ''__proto__'' then m else m(k \<mapsto> v))"

text \<open>
  One turn of the loop. \<open>rowEntry\<close> is the identifier and the instruction the turn
  registers, \<open>None\<close> where the turn ends in a \<^verbatim>\<open>continue\<close>.
\<close>

definition rowEntry :: "char \<Rightarrow> nat \<Rightarrow> string \<Rightarrow> (string \<times> string) option" where
  "rowEntry delim i line =
     (let idx = indexOf line delim
      in if idx < 0 then None
         else let ident = stripQuotes (trim (take (nat idx) line));
                  instruction = stripQuotes (trim (drop (nat (idx + 1)) line))
              in if i = 0 \<and> toLowerCase ident = ''id'' then None
                 else if ident = [] then None
                 else Some (ident, instruction))"

definition csvStep :: "char \<Rightarrow> (string \<rightharpoonup> string) \<Rightarrow> nat \<times> string \<Rightarrow> (string \<rightharpoonup> string)" where
  "csvStep delim m row =
     (case rowEntry delim (fst row) (snd row) of
        None \<Rightarrow> m
      | Some (ident, instruction) \<Rightarrow>
          (let norm = normalizeId ident
           in setString (setString m ident instruction) norm instruction))"

definition parseInstructionsCSV :: "string \<Rightarrow> (string \<rightharpoonup> string)" where
  "parseInstructionsCSV text =
     (let lines = csvLines text
      in if length lines = 0 then Map.empty
         else foldl (csvStep (detectDelim (hd lines))) Map.empty (enumerate 0 lines))"

text \<open>
  The rows of the table as its contract counts them: every non-blank line after the
  header line. Such a row names an identifier (the text before the first semicolon or
  comma, trimmed) and an instruction (the text after it).
\<close>

definition registersEveryRow :: "string \<Rightarrow> bool" where
  "registersEveryRow text =
     list_all (\<lambda>line.
        let ident = trim (takeWhile (\<lambda>c. c \<noteq> CHR '';'' \<and> c \<noteq> CHR '','') line)
        in parseInstructionsCSV text ident \<noteq> None \<and>
           parseInstructionsCSV text (normalizeId ident) \<noteq> None)
       (tl (csvLines text))"

definition csvDelim :: "string \<Rightarrow> char" where
  "csvDelim text = detectDelim (hd (csvLines text))"

text \<open>The keys a line registers: none when its turn of the loop ends early.\<close>

definition rowKeys :: "char \<Rightarrow> nat \<Rightarrow> string \<Rightarrow> string set" where
  "rowKeys delim i line =
     (case rowEntry delim i line of
        None \<Rightarrow> {}
      | Some (ident, instruction) \<Rightarrow> {ident, normalizeId ident})"

text \<open>
  Two tables with the header \<open>id;instruction\<close>: one whose row is \<open>001;Draw a cat\<close>,
  and one whose row uses a comma.
\<close>

definition csvExample :: string where
  "csvExample = ''id;instruction'' @ [CHR 0x0A] @ ''001;Draw a cat''"

definition csvCommaRow :: string where
  "csvCommaRow = ''id;instruction'' @ [CHR 0x0A] @ ''001,Draw a cat''"

section \<open>Data model\<close>

text \<open>
  \<^verbatim>\<open>
  type LoadedImage = {
    file?: File; url: string; model: string; name: string;
    id: string; source: "upload" | "public";
  };
  \<close>
  A \<^verbatim>\<open>File\<close> is known by its name. The fields \<^verbatim>\<open>file\<close> and \<^verbatim>\<open>id\<close> are
  \<open>fileObj\<close> and \<open>ident\<close> here.
\<close>

datatype File = File string

datatype origin = Upload | Public

record LoadedImage =
  fileObj :: "File option"
  url :: string
  model :: string
  name :: string
  ident :: string
  source :: origin

text \<open>
  The two ways an image enters the catalog: \<^verbatim>\<open>onFileChange\<close> builds it from a picked
  file and its object URL, \<^verbatim>\<open>loadFromPublicFolder\<close> from a listed name (whose last
  path segment is parsed) and the URL the name resolves to.
\<close>

definition uploaded :: "string \<Rightarrow> string \<Rightarrow> LoadedImage" where
  "uploaded fname objectUrl =
     (let m = parseModelPrefix fname
      in \<lparr>fileObj = Some (File fname), url = objectUrl, model = m, name = fname,
          ident = parseIdSuffix fname (Some m), source = Upload\<rparr>)"

definition lastSegment :: "string \<Rightarrow> string" where
  "lastSegment path = orElse (last (splitOn CHR ''/'' path)) path"

definition listed :: "string \<Rightarrow> string \<Rightarrow> LoadedImage" where
  "listed path resolved =
     (let baseName = lastSegment path;
          m = parseModelPrefix baseName
      in \<lparr>fileObj = None, url = resolved, model = m, name = path,
          ident = parseIdSuffix baseName (Some m), source = Public\<rparr>)"

section \<open>Plain objects as dictionaries\<close>

text \<open>
  \<^verbatim>\<open>startArena\<close> keeps the images of each model in a plain object
  (\<^verbatim>\<open>const map1: Record<string, LoadedImage> = {}\<close>). Such an object has its own
  properties, in the order they were created, and a prototype, \<^verbatim>\<open>Object.prototype\<close>
  at first.

  \<^item> \<^verbatim>\<open>map[k] = img\<close> adds or replaces the own property \<open>k\<close>; for the key
    \<^verbatim>\<open>__proto__\<close> it calls the inherited setter instead, which makes the image the
    prototype of the object and stores no property.
  \<^item> \<^verbatim>\<open>map[k]\<close> reads the own property \<open>k\<close>; when there is none, the property
    \<open>k\<close> of the prototype chain: of the image that was made the prototype, if any,
    and then of \<^verbatim>\<open>Object.prototype\<close>.
  \<^item> \<^verbatim>\<open>Object.keys(map)\<close> lists the own keys: those that are array indices
    first, in ascending order, then the others in creation order.

  A read therefore yields a \<open>jsval\<close>: an image, or one of the other values the chain
  can hold.
\<close>

datatype jsval =
    Image LoadedImage
  | Str string
  | FileObject File
  | Function string
  | ObjectPrototype
  | Undefined

record imageMap =
  own :: "(string \<times> LoadedImage) list"
  proto :: "LoadedImage option"

definition emptyObject :: imageMap where
  "emptyObject = \<lparr>own = [], proto = None\<rparr>"

text \<open>Adding or replacing an own property; a replaced property keeps its place.\<close>

fun putOwn :: "string \<Rightarrow> 'v \<Rightarrow> (string \<times> 'v) list \<Rightarrow> (string \<times> 'v) list" where
  "putOwn k v [] = [(k, v)]"
| "putOwn k v (p # ps) = (if fst p = k then (k, v) # ps else p # putOwn k v ps)"

definition assign :: "imageMap \<Rightarrow> string \<Rightarrow> LoadedImage \<Rightarrow> imageMap" where
  "assign m k img =
     (if k = ''__proto__'' then m\<lparr>proto := Some img\<rparr>
      else m\<lparr>own := putOwn k img (own m)\<rparr>)"

text \<open>
  The members of \<^verbatim>\<open>Object.prototype\<close>: its functions, known by their
  \<^verbatim>\<open>name\<close> (the constructor is the function \<^verbatim>\<open>Object\<close>).
\<close>

definition prototypeFunctions :: "string list" where
  "prototypeFunctions =
     [''__defineGetter__'', ''__defineSetter__'', ''hasOwnProperty'', ''__lookupGetter__'',
      ''__lookupSetter__'', ''isPrototypeOf'', ''propertyIsEnumerable'', ''toString'',
      ''valueOf'', ''toLocaleString'']"

definition fromObjectPrototype :: "string \<Rightarrow> jsval" where
  "fromObjectPrototype k =
     (if k = ''constructor'' then Function ''Object''
      else if k \<in> set prototypeFunctions then Function k
      else if k = ''__proto__'' then ObjectPrototype
      else Undefined)"

text \<open>The keys no plain object lacks: a read of one of them never yields \<^verbatim>\<open>undefined\<close>.\<close>

definition inheritedKeys :: "string list" where
  "inheritedKeys = ''constructor'' # ''__proto__'' # prototypeFunctions"

definition fromImage :: "LoadedImage \<Rightarrow> string \<Rightarrow> jsval" where
  "fromImage img k =
     (if k = ''url'' then Str (url img)
      else if k = ''model'' then Str (model img)
      else if k = ''name'' then Str (name img)
      else if k = ''id'' then Str (ident img)
      else if k = ''source'' then Str (case source img of Upload \<Rightarrow> ''upload'' | Public \<Rightarrow> ''public'')
      else if k = ''file'' \<and> fileObj img \<noteq> None then FileObject (the (fileObj img))
      else fromObjectPrototype k)"

definition lookup :: "imageMap \<Rightarrow> string \<Rightarrow> jsval" where
  "lookup m k =
     (case map_of (own m) k of
        Some img \<Rightarrow> Image img
      | None \<Rightarrow>
          (case proto m of
             None \<Rightarrow> fromObjectPrototype k
           | Some img \<Rightarrow> if k = ''__proto__'' then Image img else fromImage img k))"

text \<open>Truthiness, as the filter \<^verbatim>\<open>(id) => map2[id]\<close> reads it.\<close>

fun truthy :: "jsval \<Rightarrow> bool" where
  "truthy (Str s) = (s \<noteq> [])"
| "truthy Undefined = False"
| "truthy _ = True"

text \<open>
  The property reads \<^verbatim>\<open>.name\<close>, \<^verbatim>\<open>.model\<close> and \<^verbatim>\<open>.id\<close> of a value, \<open>None\<close>
  for \<^verbatim>\<open>undefined\<close>. A file and a function have a name, and nothing else of the
  three.
\<close>

fun nameOf :: "jsval \<Rightarrow> string option" where
  "nameOf (Image img) = Some (name img)"
| "nameOf (FileObject (File n)) = Some n"
| "nameOf (Function f) = Some f"
| "nameOf _ = None"

fun modelOf :: "jsval \<Rightarrow> string option" where
  "modelOf (Image img) = Some (model img)"
| "modelOf _ = None"

fun idOf :: "jsval \<Rightarrow> string option" where
  "idOf (Image img) = Some (ident img)"
| "idOf _ = None"

text \<open>
  An array index is the canonical decimal form of a number below \<open>2^32 - 1\<close>.
\<close>

definition digitsValue :: "string \<Rightarrow> nat" where
  "digitsValue s = foldl (\<lambda>n c. 10 * n + (of_char c - 48)) 0 s"

definition isArrayIndex :: "string \<Rightarrow> bool" where
  "isArrayIndex k =
     (k \<noteq> [] \<and> list_all isDigit k \<and> (k = ''0'' \<or> hd k \<noteq> CHR ''0'') \<and>
      digitsValue k < 4294967295)"

definition objectKeys :: "imageMap \<Rightarrow> string list" where
  "objectKeys m =
     (let ks = map fst (own m)
      in sort_key digitsValue (filter isArrayIndex ks) @ filter (\<lambda>k. \<not> isArrayIndex k) ks)"

section \<open>Image catalog\<close>

text \<open>
  A \<^verbatim>\<open>Set\<close> keeps its members in insertion order; it is the list of first
  occurrences.
\<close>

definition setAdd :: "'a list \<Rightarrow> 'a \<Rightarrow> 'a list" where
  "setAdd seen x = (if x \<in> set seen then seen else seen @ [x])"

definition newSet :: "'a list \<Rightarrow> 'a list" where
  "newSet xs = foldl setAdd [] xs"

text \<open>
  \<^verbatim>\<open>
  function mergeUniqueByUrl(existing: LoadedImage[], incoming: LoadedImage[]) {
    const seen = new Set(existing.map((i) => i.url));
    const merged = existing.slice();
    for (const item of incoming) {
      if (!seen.has(item.url)) { merged.push(item); seen.add(item.url); }
    }
    return merged;
  }
  \<close>
\<close>

fun mergeLoop :: "LoadedImage list \<Rightarrow> string list \<Rightarrow> LoadedImage list \<Rightarrow> LoadedImage list" where
  "mergeLoop merged seen [] = merged"
| "mergeLoop merged seen (item # rest) =
     (if url item \<in> set seen then mergeLoop merged seen rest
      else mergeLoop (merged @ [item]) (setAdd seen (url item)) rest)"

definition mergeUniqueByUrl :: "LoadedImage list \<Rightarrow> LoadedImage list \<Rightarrow> LoadedImage list" where
  "mergeUniqueByUrl existing incoming = mergeLoop existing (newSet (map url existing)) incoming"

text \<open>
  \<^verbatim>\<open>
  const models = useMemo(() => {
    const set = new Set(images.map((i) => i.model));
    return Array.from(set).slice(0, 2) as [string, string];
  }, [images]);
  \<close>
\<close>

definition models :: "LoadedImage list \<Rightarrow> string list" where
  "models imgs = take 2 (newSet (map model imgs))"

text \<open>An array read \<^verbatim>\<open>xs[i]\<close>: \<^verbatim>\<open>undefined\<close> past the end.\<close>

definition itemAt :: "'a list \<Rightarrow> nat \<Rightarrow> 'a option" where
  "itemAt xs i = (if i < length xs then Some (xs ! i) else None)"

section \<open>Random source\<close>

text \<open>
  The operations draw from \<^verbatim>\<open>Math.random()\<close>. The source is a parameter: a
  function \<open>rnd\<close> whose value at \<open>k\<close> stands for the \<open>k\<close>-th draw of the operation,
  the fraction \<open>(rnd k mod 2^53) / 2^53\<close> of the interval from 0 to 1. With exact
  arithmetic, \<^verbatim>\<open>Math.floor(Math.random() * n)\<close> is \<open>randomBelow\<close> and
  \<^verbatim>\<open>Math.random() < 0.5\<close> is \<open>randomLow\<close>.
\<close>

type_synonym random = "nat \<Rightarrow> nat"

definition randomBelow :: "random \<Rightarrow> nat \<Rightarrow> nat \<Rightarrow> nat" where
  "randomBelow rnd k n = ((rnd k mod 2 ^ 53) * n) div 2 ^ 53"

definition randomLow :: "random \<Rightarrow> nat \<Rightarrow> bool" where
  "randomLow rnd k = (rnd k mod 2 ^ 53 < 2 ^ 52)"

text \<open>
  \<^verbatim>\<open>
  function shuffleArray<T>(items: T[]): T[] {
    const a = items.slice();
    for (let i = a.length - 1; i > 0; i--) {
      const j = Math.floor(Math.random() * (i + 1));
      [a[i], a[j]] = [a[j], a[i]];
    }
    return a;
  }
  \<close>
  The loop runs \<open>i\<close> down to 1; \<open>k\<close> counts the draws.
\<close>

fun shuffleLoop :: "random \<Rightarrow> nat \<Rightarrow> nat \<Rightarrow> 'a list \<Rightarrow> 'a list" where
  "shuffleLoop rnd k 0 a = a"
| "shuffleLoop rnd k (Suc i) a =
     (let j = randomBelow rnd k (Suc i + 1)
      in shuffleLoop rnd (k + 1) i (a[Suc i := a ! j, j := a ! Suc i]))"

definition shuffleArray :: "random \<Rightarrow> 'a list \<Rightarrow> 'a list" where
  "shuffleArray rnd items = shuffleLoop rnd 0 (length items - 1) items"

text \<open>
  The second variant orders the identifiers with
  \<^verbatim>\<open>commonIds.sort(() => Math.random() - 0.5)\<close>. With a comparison function that
  answers at random, the order a sort produces is left to the engine; what every engine
  returns is a rearrangement of the array. The model sorts by insertion, each
  comparison answered by the next draw, and returns the number of draws with the
  result. The theorems use of it only that the result is a rearrangement.
\<close>

fun insertRandom :: "random \<Rightarrow> nat \<Rightarrow> 'a \<Rightarrow> 'a list \<Rightarrow> 'a list \<times> nat" where
  "insertRandom rnd k x [] = ([x], k)"
| "insertRandom rnd k x (y # ys) =
     (if randomLow rnd k then (x # y # ys, k + 1)
      else (let (r, k') = insertRandom rnd (k + 1) x ys in (y # r, k')))"

fun sortRandom :: "random \<Rightarrow> nat \<Rightarrow> 'a list \<Rightarrow> 'a list \<times> nat" where
  "sortRandom rnd k [] = ([], k)"
| "sortRandom rnd k (x # xs) =
     (let (s, k') = sortRandom rnd k xs in insertRandom rnd k' x s)"

section \<open>Session state\<close>

text \<open>
  \<^verbatim>\<open>
  const [rounds, setRounds] = useState<number>(defaultRounds);
  const [images, setImages] = useState<LoadedImage[]>([]);
  const [phase, setPhase] = useState<"config" | "playing" | "results">("config");
  const [current, setCurrent] = useState(0);
  const [pairs, setPairs] = useState<Array<{ left: LoadedImage; right: LoadedImage }>>([]);
  const [instructionsById, setInstructionsById] = useState<Record<string, string>>({});
  const votesRef = useRef<ArenaResult["votes"]>([]);
  const [zoomSrc, setZoomSrc] = useState<string | null>(null);
  const [justVoted, setJustVoted] = useState<"left" | "right" | null>(null);
  \<close>
  The second variant has the first six of these but \<^verbatim>\<open>instructionsById\<close>; they are
  the record \<open>session\<close>, which the record \<open>arena\<close> of the first variant extends.
  The members of a pair are what the reads \<^verbatim>\<open>map1[id]\<close> and \<^verbatim>\<open>map2[id]\<close> gave.
  A vote holds the choice of its variant: left or right in the first, and also tie
  or both in the second. The field \<^verbatim>\<open>round\<close> of a vote is \<open>roundNo\<close> here.

  \<^verbatim>\<open>rounds\<close> is a JavaScript number, and nothing makes it a whole one: it starts as
  the property \<^verbatim>\<open>defaultRounds\<close> (20 where the page gives none), and the field of the
  second variant sets it to \<^verbatim>\<open>Math.max(1, Number(e.target.value))\<close>, for instance to
  1.5. A number is a finite one (every double is a real), an infinity, or
  \<^verbatim>\<open>NaN\<close>.
\<close>

datatype jsnumber = Finite real | PlusInfinity | MinusInfinity | NotANumber

datatype phase = Config | Playing | Results

datatype choice = Left | Right

datatype choice_v2 = VLeft | VRight | VTie | VBoth

record pair =
  left :: jsval
  right :: jsval

record snapshot =
  snapName :: "string option"
  snapModel :: "string option"
  snapId :: "string option"

record 'c vote =
  roundNo :: nat
  voteLeft :: snapshot
  voteRight :: snapshot
  choice :: 'c
  winnerModel :: "string option"

record 'c session =
  rounds :: jsnumber
  images :: "LoadedImage list"
  phase :: phase
  current :: nat
  pairs :: "pair list"
  votesRef :: "'c vote list"

text \<open>
  A vote of the first variant arms a timer of 300 ms. Its callback is a closure over
  the values of the render that made it: the next round, the pairs, and, through
  \<^verbatim>\<open>finish\<close>, the detected models and \<^verbatim>\<open>rounds\<close>. The browser keeps the armed
  timers; equal delays fire in the order they were armed.
\<close>

record timer =
  nextRound :: nat
  pairCount :: nat
  seenModels :: "string list"
  seenRounds :: jsnumber

record arena = "choice session" +
  instructionsById :: "string \<rightharpoonup> string"
  zoomSrc :: "string option"
  justVoted :: "choice option"
  pending :: "timer list"

definition initial :: "jsnumber \<Rightarrow> arena" where
  "initial defaultRounds =
     \<lparr>rounds = defaultRounds, images = [], phase = Config, current = 0, pairs = [],
      votesRef = [], instructionsById = Map.empty, zoomSrc = None, justVoted = None,
      pending = []\<rparr>"

text \<open>
  What an operation does beyond the state: the toasts it shows and the file it hands
  to the download. \<open>Download now result winner\<close> is the call
  \<^verbatim>\<open>downloadJSON(`image-arena-results-${Date.now()}.json`, { ...result, winner })\<close>.
  A count is a JavaScript number: a natural number, or \<^verbatim>\<open>NaN\<close>.
\<close>

datatype number = Num nat | NaN

record 'c ArenaResult =
  timestamp :: nat
  resultModels :: "string option \<times> string option"
  roundsPlanned :: jsnumber
  roundsCompleted :: nat
  winsByModel :: "(string \<times> number) list"
  ties :: nat
  bothBad :: nat
  votes :: "'c vote list"

datatype 'c effect =
    ToastError string
  | ToastSuccess string
  | Download nat "'c ArenaResult" "string option"

text \<open>How many files a list of effects hands to the download.\<close>

fun isDownload :: "'c effect \<Rightarrow> bool" where
  "isDownload (Download now result winner) = True"
| "isDownload (ToastError msg) = False"
| "isDownload (ToastSuccess msg) = False"

definition exported :: "'c effect list \<Rightarrow> nat" where
  "exported out = length (filter isDownload out)"

section \<open>Pair matcher and session start\<close>

text \<open>
  \<^verbatim>\<open>
  function startArena() {
    const [m1, m2] = models;
    if (!m1 || !m2) {
      toast.error("Please provide images from exactly two models (use filename prefixes).");
      return;
    }
    // Build maps by id for each model
    const map1: Record<string, LoadedImage> = {};
    const map2: Record<string, LoadedImage> = {};
    for (const img of images) {
      if (img.model === m1) map1[img.id] = img;
      else if (img.model === m2) map2[img.id] = img;
    }
    const commonIds = Object.keys(map1).filter((id) => map2[id]);
    if (commonIds.length === 0) {
      toast.error("No matching pairs found (match by id after prefix, e.g., A_001 with B_001).");
      return;
    }
    // Shuffle order but keep id-pairing. Use all pairs.
    const order = shuffleArray(commonIds);
    const newPairs: Array<{ left: LoadedImage; right: LoadedImage }> = [];
    for (const id of order) {
      const a = map1[id]!;
      const b = map2[id]!;
      if (Math.random() < 0.5) newPairs.push({ left: a, right: b });
      else newPairs.push({ left: b, right: a });
    }
    votesRef.current = [];
    setPairs(newPairs);
    setCurrent(0);
    setPhase("playing");
  }
  \<close>
\<close>

definition buildMaps :: "string \<Rightarrow> string \<Rightarrow> LoadedImage list \<Rightarrow> imageMap \<times> imageMap" where
  "buildMaps m1 m2 imgs =
     foldl (\<lambda>(map_1, map_2) img.
              if model img = m1 then (assign map_1 (ident img) img, map_2)
              else if model img = m2 then (map_1, assign map_2 (ident img) img)
              else (map_1, map_2))
       (emptyObject, emptyObject) imgs"

definition commonIds :: "string \<Rightarrow> string \<Rightarrow> LoadedImage list \<Rightarrow> string list" where
  "commonIds m1 m2 imgs =
     (let (map_1, map_2) = buildMaps m1 m2 imgs
      in filter (\<lambda>k. truthy (lookup map_2 k)) (objectKeys map_1))"

fun buildPairs :: "random \<Rightarrow> nat \<Rightarrow> imageMap \<Rightarrow> imageMap \<Rightarrow> string list \<Rightarrow> pair list" where
  "buildPairs rnd k map_1 map_2 [] = []"
| "buildPairs rnd k map_1 map_2 (i # ids) =
     (let a = lookup map_1 i;
          b = lookup map_2 i
      in (if randomLow rnd k then \<lparr>left = a, right = b\<rparr> else \<lparr>left = b, right = a\<rparr>)
         # buildPairs rnd (k + 1) map_1 map_2 ids)"

definition needTwoModels :: string where
  "needTwoModels = ''Please provide images from exactly two models (use filename prefixes).''"

definition noMatchingPairs :: string where
  "noMatchingPairs =
     ''No matching pairs found (match by id after prefix, e.g., A_001 with B_001).''"

text \<open>
  The two models the start works with, when \<^verbatim>\<open>!m1 || !m2\<close> is false: both are
  there and neither is the empty string.
\<close>

definition twoModels :: "LoadedImage list \<Rightarrow> (string \<times> string) option" where
  "twoModels imgs =
     (case (itemAt (models imgs) 0, itemAt (models imgs) 1) of
        (Some m1, Some m2) \<Rightarrow> if m1 = [] \<or> m2 = [] then None else Some (m1, m2)
      | _ \<Rightarrow> None)"

definition newPairs :: "random \<Rightarrow> string \<Rightarrow> string \<Rightarrow> LoadedImage list \<Rightarrow> pair list" where
  "newPairs rnd m1 m2 imgs =
     (let (map_1, map_2) = buildMaps m1 m2 imgs;
          ids = commonIds m1 m2 imgs;
          order = shuffleArray rnd ids
      in buildPairs rnd (length ids - 1) map_1 map_2 order)"

definition startArena :: "random \<Rightarrow> arena \<Rightarrow> arena \<times> choice effect list" where
  "startArena rnd s =
     (case twoModels (images s) of
        None \<Rightarrow> (s, [ToastError needTwoModels])
      | Some (m1, m2) \<Rightarrow>
          if length (commonIds m1 m2 (images s)) = 0 then (s, [ToastError noMatchingPairs])
          else (s\<lparr>votesRef := [], pairs := newPairs rnd m1 m2 (images s), current := 0,
                  phase := Playing\<rparr>, []))"

text \<open>
  The second variant orders the identifiers by the random sort and makes a pair for
  every index below \<^verbatim>\<open>Math.min(rounds, order.length)\<close>:
  \<^verbatim>\<open>
    // Shuffle order but keep id-pairing. Limit by rounds.
    const order = commonIds.sort(() => Math.random() - 0.5);
    const maxRounds = Math.min(rounds, order.length);
    const newPairs: Array<{ left: LoadedImage; right: LoadedImage }> = [];
    for (let i = 0; i < maxRounds; i++) {
      const id = order[i];
      const a = map1[id]!;
      const b = map2[id]!;
      if (Math.random() < 0.5) newPairs.push({ left: a, right: b });
      else newPairs.push({ left: b, right: a });
    }
  \<close>
  \<open>mathMin x n\<close> is \<^verbatim>\<open>Math.min(x, n)\<close> for a length \<open>n\<close>, and \<open>below i x\<close> is
  the test \<^verbatim>\<open>i < x\<close> for an index \<open>i\<close>; both are false or \<^verbatim>\<open>NaN\<close> where a
  \<^verbatim>\<open>NaN\<close> comes in. \<open>pairLoop\<close> is the loop from the index \<open>i\<close> on, over the
  identifiers \<^verbatim>\<open>order[i]\<close>, \<^verbatim>\<open>order[i + 1]\<close>, ...; the bound is never above the
  length, so the loop ends at the end of \<^verbatim>\<open>order\<close> at the latest.
\<close>

definition mathMin :: "jsnumber \<Rightarrow> nat \<Rightarrow> jsnumber" where
  "mathMin x n =
     (case x of
        Finite r \<Rightarrow> Finite (min r (real n))
      | PlusInfinity \<Rightarrow> Finite (real n)
      | MinusInfinity \<Rightarrow> MinusInfinity
      | NotANumber \<Rightarrow> NotANumber)"

definition below :: "nat \<Rightarrow> jsnumber \<Rightarrow> bool" where
  "below i x =
     (case x of
        Finite r \<Rightarrow> real i < r
      | PlusInfinity \<Rightarrow> True
      | MinusInfinity \<Rightarrow> False
      | NotANumber \<Rightarrow> False)"

fun pairLoop ::
  "random \<Rightarrow> nat \<Rightarrow> imageMap \<Rightarrow> imageMap \<Rightarrow> jsnumber \<Rightarrow> nat \<Rightarrow> string list \<Rightarrow> pair list" where
  "pairLoop rnd k map_1 map_2 maxRounds i [] = []"
| "pairLoop rnd k map_1 map_2 maxRounds i (x # xs) =
     (if below i maxRounds
      then (let a = lookup map_1 x;
                b = lookup map_2 x
            in (if randomLow rnd k then \<lparr>left = a, right = b\<rparr> else \<lparr>left = b, right = a\<rparr>)
               # pairLoop rnd (k + 1) map_1 map_2 maxRounds (i + 1) xs)
      else [])"

definition newPairs_v2 ::
  "random \<Rightarrow> jsnumber \<Rightarrow> string \<Rightarrow> string \<Rightarrow> LoadedImage list \<Rightarrow> pair list" where
  "newPairs_v2 rnd rds m1 m2 imgs =
     (let (map_1, map_2) = buildMaps m1 m2 imgs;
          (order, k) = sortRandom rnd 0 (commonIds m1 m2 imgs);
          maxRounds = mathMin rds (length order)
      in pairLoop rnd k map_1 map_2 maxRounds 0 order)"

text \<open>
  The field for the rounds, in the second variant only:
  \<^verbatim>\<open>onChange={(e) => setRounds(Math.max(1, Number(e.target.value)))}\<close>. \<open>v\<close> is the
  number \<^verbatim>\<open>Number(e.target.value)\<close>.
\<close>

definition mathMax1 :: "jsnumber \<Rightarrow> jsnumber" where
  "mathMax1 v =
     (case v of
        Finite r \<Rightarrow> Finite (max 1 r)
      | PlusInfinity \<Rightarrow> PlusInfinity
      | MinusInfinity \<Rightarrow> Finite 1
      | NotANumber \<Rightarrow> NotANumber)"

definition roundsChanged_v2 :: "jsnumber \<Rightarrow> choice_v2 session \<Rightarrow> choice_v2 session" where
  "roundsChanged_v2 v s = s\<lparr>rounds := mathMax1 v\<rparr>"

definition startArena_v2 ::
  "random \<Rightarrow> choice_v2 session \<Rightarrow> choice_v2 session \<times> choice_v2 effect list" where
  "startArena_v2 rnd s =
     (case twoModels (images s) of
        None \<Rightarrow> (s, [ToastError needTwoModels])
      | Some (m1, m2) \<Rightarrow>
          if length (commonIds m1 m2 (images s)) = 0 then (s, [ToastError noMatchingPairs])
          else (s\<lparr>votesRef := [], pairs := newPairs_v2 rnd (rounds s) m1 m2 (images s),
                  current := 0, phase := Playing\<rparr>, []))"

section \<open>Aggregator\<close>

text \<open>
  \<^verbatim>\<open>
  function finish() {
    const [m1, m2] = models;
    const winsByModel: Record<string, number> = { [m1]: 0, [m2]: 0 };
    let ties = 0;
    let bothBad = 0;
    for (const v of votesRef.current) {
      if (v.winnerModel) winsByModel[v.winnerModel]++;
    }
    const result: ArenaResult = {
      timestamp: new Date().toISOString(),
      models: [m1, m2],
      roundsPlanned: rounds,
      roundsCompleted: votesRef.current.length,
      winsByModel,
      ties: 0,
      bothBad: 0,
      votes: votesRef.current,
    };
    const winner =
      winsByModel[m1] === winsByModel[m2] ? "tie"
        : winsByModel[m1] > winsByModel[m2] ? m1 : m2;
    toast.success(winner === "tie" ? "Result: tie" : `Winner: ${winner}`, { duration: 3500 });
    downloadJSON(`image-arena-results-${Date.now()}.json`, { ...result, winner });
    setPhase("results");
  }
  \<close>
  A model that is \<^verbatim>\<open>undefined\<close> becomes the key \<^verbatim>\<open>undefined\<close>. The counts are
  again a plain object: \<^verbatim>\<open>winsByModel[k]++\<close> adds one to the own property \<open>k\<close>;
  where there is none, the read is not a number, so the own property \<open>k\<close> is created
  as \<^verbatim>\<open>NaN\<close>; for the key \<^verbatim>\<open>__proto__\<close> the inherited setter ignores it.
  The list holds the own properties in the order of their creation, which is the order
  the file lists them in unless a key is an array index; nothing here depends on the
  order of such keys.
\<close>

definition keyOf :: "string option \<Rightarrow> string" where
  "keyOf m = (case m of None \<Rightarrow> ''undefined'' | Some k \<Rightarrow> k)"

definition initialWins :: "string option \<Rightarrow> string option \<Rightarrow> (string \<times> number) list" where
  "initialWins m1 m2 = putOwn (keyOf m2) (Num 0) [(keyOf m1, Num 0)]"

definition plusOne :: "number \<Rightarrow> number" where
  "plusOne n = (case n of Num c \<Rightarrow> Num (c + 1) | NaN \<Rightarrow> NaN)"

definition increment :: "(string \<times> number) list \<Rightarrow> string \<Rightarrow> (string \<times> number) list" where
  "increment w k =
     (case map_of w k of
        Some n \<Rightarrow> putOwn k (plusOne n) w
      | None \<Rightarrow> if k = ''__proto__'' then w else w @ [(k, NaN)])"

text \<open>The read \<^verbatim>\<open>winsByModel[k]\<close> of a key the object has as its own.\<close>

definition readWins :: "(string \<times> number) list \<Rightarrow> string \<Rightarrow> number" where
  "readWins w k = (case map_of w k of Some n \<Rightarrow> n | None \<Rightarrow> NaN)"

definition countWinner :: "(string \<times> number) list \<Rightarrow> 'c vote \<Rightarrow> (string \<times> number) list" where
  "countWinner w v =
     (case winnerModel v of
        Some m \<Rightarrow> if m \<noteq> [] then increment w m else w
      | None \<Rightarrow> w)"

definition overallWinner ::
  "(string \<times> number) list \<Rightarrow> string option \<Rightarrow> string option \<Rightarrow> string option" where
  "overallWinner w m1 m2 =
     (case (readWins w (keyOf m1), readWins w (keyOf m2)) of
        (Num a, Num b) \<Rightarrow> if a = b then Some ''tie'' else if a > b then m1 else m2
      | _ \<Rightarrow> m2)"

definition winnerToast :: "string option \<Rightarrow> string" where
  "winnerToast winner =
     (if winner = Some ''tie'' then ''Result: tie'' else ''Winner: '' @ keyOf winner)"

definition arenaResult :: "nat \<Rightarrow> string list \<Rightarrow> jsnumber \<Rightarrow> choice vote list \<Rightarrow> choice ArenaResult" where
  "arenaResult now ms rds vs =
     (let m1 = itemAt ms 0; m2 = itemAt ms 1
      in \<lparr>timestamp = now, resultModels = (m1, m2), roundsPlanned = rds,
          roundsCompleted = length vs,
          winsByModel = foldl countWinner (initialWins m1 m2) vs,
          ties = 0, bothBad = 0, votes = vs\<rparr>)"

definition finish :: "nat \<Rightarrow> string list \<Rightarrow> jsnumber \<Rightarrow> arena \<Rightarrow> arena \<times> choice effect list" where
  "finish now ms rds s =
     (let result = arenaResult now ms rds (votesRef s);
          winner = overallWinner (winsByModel result) (itemAt ms 0) (itemAt ms 1)
      in (s\<lparr>phase := Results\<rparr>, [ToastSuccess (winnerToast winner), Download now result winner]))"

text \<open>
  The second variant counts ties and rounds where both images are bad:
  \<^verbatim>\<open>
    for (const v of votesRef.current) {
      if (v.choice === "tie") ties++;
      else if (v.choice === "both") bothBad++;
      else if (v.winnerModel) winsByModel[v.winnerModel]++;
    }
    const result: ArenaResult = { ..., winsByModel, ties, bothBad, votes: votesRef.current };
  \<close>
\<close>

record tally =
  wins :: "(string \<times> number) list"
  tieCount :: nat
  bothBadCount :: nat

definition countVote_v2 :: "tally \<Rightarrow> choice_v2 vote \<Rightarrow> tally" where
  "countVote_v2 t v =
     (if choice v = VTie then t\<lparr>tieCount := tieCount t + 1\<rparr>
      else if choice v = VBoth then t\<lparr>bothBadCount := bothBadCount t + 1\<rparr>
      else t\<lparr>wins := countWinner (wins t) v\<rparr>)"

definition arenaResult_v2 ::
  "nat \<Rightarrow> string list \<Rightarrow> jsnumber \<Rightarrow> choice_v2 vote list \<Rightarrow> choice_v2 ArenaResult" where
  "arenaResult_v2 now ms rds vs =
     (let m1 = itemAt ms 0; m2 = itemAt ms 1;
          t = foldl countVote_v2 \<lparr>wins = initialWins m1 m2, tieCount = 0, bothBadCount = 0\<rparr> vs
      in \<lparr>timestamp = now, resultModels = (m1, m2), roundsPlanned = rds,
          roundsCompleted = length vs, winsByModel = wins t,
          ties = tieCount t, bothBad = bothBadCount t, votes = vs\<rparr>)"

definition finish_v2 ::
  "nat \<Rightarrow> choice_v2 session \<Rightarrow> choice_v2 session \<times> choice_v2 effect list" where
  "finish_v2 now s =
     (let ms = models (images s);
          result = arenaResult_v2 now ms (rounds s) (votesRef s);
          winner = overallWinner (winsByModel result) (itemAt ms 0) (itemAt ms 1)
      in (s\<lparr>phase := Results\<rparr>, [ToastSuccess (winnerToast winner), Download now result winner]))"

section \<open>Voting\<close>

text \<open>
  \<^verbatim>\<open>
  function vote(choice: "left" | "right") {
    const pair = pairs[current];
    if (!pair) return;
    const winnerModel =
      choice === "left" ? pair.left.model : choice === "right" ? pair.right.model : null;
    votesRef.current.push({
      round: current + 1,
      left: { name: pair.left.name, model: pair.left.model, id: pair.left.id },
      right: { name: pair.right.name, model: pair.right.model, id: pair.right.id },
      choice,
      winnerModel,
    });
    const next = current + 1;
    // For left/right, briefly show a green tick before advancing
    if (choice === "left" || choice === "right") {
      setJustVoted(choice);
      window.setTimeout(() => {
        setJustVoted(null);
        if (next >= pairs.length) finish();
        else setCurrent(next);
      }, 300);
      return;
    }
    // Advance
    if (next >= pairs.length) finish();
    else setCurrent(next);
  }
  \<close>
  The type of \<^verbatim>\<open>choice\<close> leaves left and right only, so every vote that is recorded
  arms the timer, and the lines after the \<^verbatim>\<open>return\<close> are never reached.
\<close>

definition snapshotOf :: "jsval \<Rightarrow> snapshot" where
  "snapshotOf v = \<lparr>snapName = nameOf v, snapModel = modelOf v, snapId = idOf v\<rparr>"

definition vote :: "choice \<Rightarrow> arena \<Rightarrow> arena" where
  "vote c s =
     (case itemAt (pairs s) (current s) of
        None \<Rightarrow> s
      | Some p \<Rightarrow>
          (let winner = (case c of Left \<Rightarrow> modelOf (left p) | Right \<Rightarrow> modelOf (right p));
               v = \<lparr>roundNo = current s + 1, voteLeft = snapshotOf (left p),
                    voteRight = snapshotOf (right p), choice = c, winnerModel = winner\<rparr>;
               t = \<lparr>nextRound = current s + 1, pairCount = length (pairs s),
                    seenModels = models (images s), seenRounds = rounds s\<rparr>
           in s\<lparr>votesRef := votesRef s @ [v], justVoted := Some c, pending := pending s @ [t]\<rparr>))"

text \<open>The callback of the oldest armed timer runs.\<close>

definition timerFired :: "nat \<Rightarrow> arena \<Rightarrow> arena \<times> choice effect list" where
  "timerFired now s =
     (case pending s of
        [] \<Rightarrow> (s, [])
      | t # ts \<Rightarrow>
          (let s1 = s\<lparr>justVoted := None, pending := ts\<rparr>
           in if nextRound t \<ge> pairCount t then finish now (seenModels t) (seenRounds t) s1
              else (s1\<lparr>current := nextRound t\<rparr>, [])))"

text \<open>
  \<^verbatim>\<open>
  const handleKeyDown = useCallback((e: KeyboardEvent) => {
    if (phase !== "playing") return;
    if (e.key === "ArrowLeft") { e.preventDefault(); vote("left"); }
    else if (e.key === "ArrowRight") { e.preventDefault(); vote("right"); }
  }, [phase, current, pairs]);
  \<close>
\<close>

definition handleKeyDown :: "string \<Rightarrow> arena \<Rightarrow> arena" where
  "handleKeyDown key s =
     (if phase s \<noteq> Playing then s
      else if key = ''ArrowLeft'' then vote Left s
      else if key = ''ArrowRight'' then vote Right s
      else s)"

text \<open>
  The second variant has four choices and no timer: the vote itself moves on or
  finishes.
  \<^verbatim>\<open>
  function vote(choice: "left" | "right" | "tie" | "both") {
    const pair = pairs[current];
    if (!pair) return;
    const winnerModel =
      choice === "left" ? pair.left.model : choice === "right" ? pair.right.model : null;
    votesRef.current.push({ round: current + 1, left: {...}, right: {...}, choice, winnerModel });
    const next = current + 1;
    if (next >= pairs.length) { finish(); } else { setCurrent(next); }
  }
  \<close>
\<close>

definition vote_v2 ::
  "nat \<Rightarrow> choice_v2 \<Rightarrow> choice_v2 session \<Rightarrow> choice_v2 session \<times> choice_v2 effect list" where
  "vote_v2 now c s =
     (case itemAt (pairs s) (current s) of
        None \<Rightarrow> (s, [])
      | Some p \<Rightarrow>
          (let winner = (case c of VLeft \<Rightarrow> modelOf (left p) | VRight \<Rightarrow> modelOf (right p)
                         | _ \<Rightarrow> None);
               v = \<lparr>roundNo = current s + 1, voteLeft = snapshotOf (left p),
                    voteRight = snapshotOf (right p), choice = c, winnerModel = winner\<rparr>;
               s1 = s\<lparr>votesRef := votesRef s @ [v]\<rparr>
           in if current s + 1 \<ge> length (pairs s) then finish_v2 now s1
              else (s1\<lparr>current := current s + 1\<rparr>, [])))"

section \<open>Session state machine\<close>

text \<open>
  The events of the first variant, each handled to its end before the next. The
  buttons exist only in the phase that renders them: the start button in the
  configuration phase (disabled while there is no image), the two vote buttons in the
  playing phase (disabled while the tick of the last vote shows:
  \<^verbatim>\<open>disabled={!!justVoted}\<close>), the button for a new session in the results phase:
  \<^verbatim>\<open><Button onClick={() => setPhase("config")}>New Session</Button>\<close>.
  Images arrive through \<^verbatim>\<open>setImages((prev) => mergeUniqueByUrl(prev, imgs))\<close>, when
  the load that was started at the first render completes or files are picked.
\<close>

datatype event =
    ImagesLoaded "LoadedImage list"
  | InstructionsLoaded "string \<rightharpoonup> string"
  | ClearClicked
  | StartClicked random
  | KeyDown string
  | VoteClicked choice
  | TimerFired nat
  | ZoomChanged "string option"
  | NewSessionClicked

definition newSession :: "arena \<Rightarrow> arena" where
  "newSession s = s\<lparr>phase := Config\<rparr>"

fun step :: "event \<Rightarrow> arena \<Rightarrow> arena \<times> choice effect list" where
  "step (ImagesLoaded imgs) s = (s\<lparr>images := mergeUniqueByUrl (images s) imgs\<rparr>, [])"
| "step (InstructionsLoaded m) s = (s\<lparr>instructionsById := m\<rparr>, [])"
| "step ClearClicked s = (if phase s = Config then s\<lparr>images := []\<rparr> else s, [])"
| "step (StartClicked rnd) s =
     (if phase s = Config \<and> images s \<noteq> [] then startArena rnd s else (s, []))"
| "step (KeyDown key) s = (handleKeyDown key s, [])"
| "step (VoteClicked c) s =
     (if phase s = Playing \<and> justVoted s = None then vote c s else s, [])"
| "step (TimerFired now) s = timerFired now s"
| "step (ZoomChanged z) s = (s\<lparr>zoomSrc := z\<rparr>, [])"
| "step NewSessionClicked s = (if phase s = Results then newSession s else s, [])"

fun run :: "event list \<Rightarrow> arena \<Rightarrow> arena \<times> choice effect list" where
  "run [] s = (s, [])"
| "run (e # es) s =
     (let (s1, out1) = step e s;
          (s2, out2) = run es s1
      in (s2, out1 @ out2))"

text \<open>
  A run is calm when no arrow key is pressed while the tick of a vote shows, that is
  between a vote and the callback of its timer.
\<close>

fun calm :: "event list \<Rightarrow> arena \<Rightarrow> bool" where
  "calm [] s = True"
| "calm (e # es) s =
     ((case e of KeyDown key \<Rightarrow> key \<in> {''ArrowLeft'', ''ArrowRight''} \<longrightarrow> justVoted s = None
       | _ \<Rightarrow> True)
      \<and> calm es (fst (step e s)))"

section \<open>Example sessions\<close>

text \<open>
  Two uploaded files, one of each model with the same identifier, and a random source
  whose every draw is 0. \<open>finishedSession\<close> is the state after the files were picked,
  the arena was started, the left image was chosen with its button and the timer of
  that vote has fired.
\<close>

definition alpha1 :: LoadedImage where
  "alpha1 = uploaded ''alpha_001.png'' ''blob:a1''"

definition beta1 :: LoadedImage where
  "beta1 = uploaded ''beta_001.png'' ''blob:b1''"

definition zeros :: random where
  "zeros = (\<lambda>k. 0)"

definition playingSession :: arena where
  "playingSession = fst (run [ImagesLoaded [alpha1, beta1], StartClicked zeros] (initial (Finite 20)))"

definition finishedSession :: arena where
  "finishedSession = fst (run [VoteClicked Left, TimerFired 0] playingSession)"

definition firstVote :: "choice vote" where
  "firstVote =
     \<lparr>roundNo = 1, voteLeft = snapshotOf (Image alpha1), voteRight = snapshotOf (Image beta1),
      choice = Left, winnerModel = Some ''alpha''\<rparr>"

definition initial_v2 :: "jsnumber \<Rightarrow> choice_v2 session" where
  "initial_v2 defaultRounds =
     \<lparr>rounds = defaultRounds, images = [], phase = Config, current = 0, pairs = [],
      votesRef = []\<rparr>"

text \<open>
  A session of the second variant whose two rounds have been voted, the first a tie,
  the second for the left image.
\<close>

definition votedSession_v2 :: "choice_v2 session" where
  "votedSession_v2 =
     \<lparr>rounds = Finite 20, images = [alpha1, beta1], phase = Playing, current = 1,
      pairs = [\<lparr>left = Image alpha1, right = Image beta1\<rparr>,
               \<lparr>left = Image alpha1, right = Image beta1\<rparr>],
      votesRef =
        [\<lparr>roundNo = 1, voteLeft = snapshotOf (Image alpha1), voteRight = snapshotOf (Image beta1),
          choice = VTie, winnerModel = None\<rparr>,
         \<lparr>roundNo = 2, voteLeft = snapshotOf (Image alpha1), voteRight = snapshotOf (Image beta1),
          choice = VLeft, winnerModel = Some ''alpha''\<rparr>]\<rparr>"

text \<open>The identifiers of the images of a model in a catalog.\<close>

definition idsOf :: "string \<Rightarrow> LoadedImage list \<Rightarrow> string set" where
  "idsOf m imgs = set (map ident (filter (\<lambda>img. model img = m) imgs))"

text \<open>
  More files: a second round for each model, and a file of the first model whose
  identifier is the name of a member of \<^verbatim>\<open>Object.prototype\<close>.
\<close>

definition alpha2 :: LoadedImage where
  "alpha2 = uploaded ''alpha_002.png'' ''blob:a2''"

definition beta2 :: LoadedImage where
  "beta2 = uploaded ''beta_002.png'' ''blob:b2''"

definition alphaConstructor :: LoadedImage where
  "alphaConstructor = uploaded ''alpha_constructor.png'' ''blob:ac''"

text \<open>
  What holds of the states of a calm run. The vote log is never longer than the pairs.
  While playing, the cursor is on a pair; either no tick shows, no timer is armed and
  the log has one vote for every round before the cursor, or the tick of the vote for
  the round at the cursor shows and the one armed timer is the timer of that vote.
  Outside the playing phase no tick shows and no timer is armed.
\<close>

definition consistent :: "arena \<Rightarrow> bool" where
  "consistent s =
     (length (votesRef s) \<le> length (pairs s) \<and>
      (phase s = Playing \<longrightarrow>
         current s < length (pairs s) \<and>
         (case justVoted s of
            None \<Rightarrow> pending s = [] \<and> length (votesRef s) = current s
          | Some c \<Rightarrow>
              length (votesRef s) = current s + 1 \<and>
              (\<exists>t. pending s = [t] \<and> nextRound t = current s + 1 \<and>
                   pairCount t = length (pairs s)))) \<and>
      (phase s \<noteq> Playing \<longrightarrow> pending s = [] \<and> justVoted s = None))"

section \<open>Properties of the normalizer\<close>

lemma strip_leading_dropWhile: "strip_leading P s = dropWhile P s"
  by (induction s) auto

lemma strip_trailing_rev: "strip_trailing P s = rev (dropWhile P (rev s))"
proof (induction s)
  case Nil
  then show ?case by simp
next
  case (Cons c cs)
  show ?case
  proof (cases "\<forall>x\<in>set cs. P x")
    case True
    then have "dropWhile P (rev cs) = []" by simp
    with Cons True show ?thesis by (simp add: dropWhile_append)
  next
    case False
    then have "dropWhile P (rev cs) \<noteq> []" by simp
    with Cons False show ?thesis by (auto simp: dropWhile_append Let_def)
  qed
qed

lemma trim_strip: "trim s = strip_trailing isSpace (strip_leading isSpace s)"
  by (simp add: trim_def strip_trailing_rev strip_leading_dropWhile)

lemma all_digits_set: "list_all isDigit s = (set s \<subseteq> set ''0123456789'')"
  unfolding list_all_iff isDigit_def by blast

lemma no_leading_empty: "(dropWhile (\<lambda>c. c = CHR ''0'') s = []) = (set s \<subseteq> {CHR ''0''})"
  by auto

lemma normalize_spec_Nil: "normalize_spec [] = []"
  by (simp add: normalize_spec_def)

lemma normalizeId_refines: "normalizeId raw = normalize_spec raw"
proof (cases "raw = []")
  case True
  then show ?thesis by (simp add: normalizeId_def normalize_spec_Nil)
next
  case False
  then show ?thesis
    unfolding normalizeId_def normalize_spec_def Let_def
    by (simp only: trim_strip strip_leading_dropWhile all_digits_set no_leading_empty if_False)
qed

lemma normalizeId_examples:
  "normalizeId ''007'' = ''7''" "normalizeId ''000'' = ''0''" "normalizeId ''A-01'' = ''A-01''"
  by (simp_all add: normalizeId_def trim_def isSpace_def isSep_def isDigit_def)

text \<open>
  C7. For every input string, the normalizer trims white space and strips the leading
  run of dashes, underscores, dots and white space; a remainder that is entirely digits
  loses its leading zeros (an all-zero remainder gives \<open>0\<close>), any other remainder is
  returned unchanged, with its case. That is \<open>normalize_spec\<close>, and the function of
  the source computes it. In particular \<open>007\<close> gives \<open>7\<close>, \<open>000\<close> gives \<open>0\<close>, and
  \<open>A-01\<close> stays \<open>A-01\<close>.
\<close>

theorem normalizeId_contract:
  "normalizeId raw = normalize_spec raw \<and>
   normalizeId ''007'' = ''7'' \<and> normalizeId ''000'' = ''0'' \<and> normalizeId ''A-01'' = ''A-01''"
  using normalizeId_refines normalizeId_examples by simp

text \<open>The result never starts with a separator character.\<close>

lemma normalizeId_hd:
  assumes "normalizeId x \<noteq> []"
  shows "\<not> isSep (hd (normalizeId x))"
proof -
  define c where "c = dropWhile isSep (trim x)"
  define z where "z = dropWhile (\<lambda>ch. ch = CHR ''0'') c"
  have hc: "c \<noteq> [] \<Longrightarrow> \<not> isSep (hd c)" unfolding c_def by (rule hd_dropWhile)
  from assms have x: "x \<noteq> []" by (auto simp: normalizeId_def)
  have n: "normalizeId x =
             (if c \<noteq> [] \<and> list_all isDigit c then (if z = [] then ''0'' else z) else c)"
    by (simp only: normalizeId_def Let_def c_def z_def x if_False)
  show ?thesis
  proof (cases "c \<noteq> [] \<and> list_all isDigit c")
    case False
    with n have "normalizeId x = c" by (simp only: if_False)
    with assms hc show ?thesis by simp
  next
    case True
    with n have n': "normalizeId x = (if z = [] then ''0'' else z)" by simp
    show ?thesis
    proof (cases "z = []")
      case True
      with n' show ?thesis by (simp add: isSep_def isSpace_def)
    next
      case False
      then have "hd z \<in> set c" unfolding z_def
        by (metis hd_in_set set_dropWhileD)
      with True have "isDigit (hd z)" by (simp add: list_all_iff)
      then have "\<not> isSep (hd z)" by (auto simp: isDigit_def isSep_def isSpace_def)
      with n' False show ?thesis by simp
    qed
  qed
qed

lemma normalizeId_not_proto: "normalizeId x \<noteq> ''__proto__''"
proof
  assume a: "normalizeId x = ''__proto__''"
  then have "\<not> isSep (hd (normalizeId x))" using normalizeId_hd[of x] by simp
  with a show False by (simp add: isSep_def)
qed


section \<open>Properties of the filename parser\<close>

lemma indexOf_takeWhile:
  "indexOf s c = (if c \<in> set s then int (length (takeWhile (\<lambda>x. x \<noteq> c) s)) else - 1)"
  by (induction s) (auto simp: Let_def)

lemma first_split_min:
  "length (takeWhile (\<lambda>c. \<not> isSplitChar c) s) =
     min (length (takeWhile (\<lambda>x. x \<noteq> CHR ''_'') s)) (length (takeWhile (\<lambda>x. x \<noteq> CHR ''-'') s))"
  by (induction s) (auto simp: isSplitChar_def)

lemma first_split_absent:
  "c \<notin> set s \<Longrightarrow> length (takeWhile (\<lambda>x. x \<noteq> c) s) = length s"
  by (induction s) auto

lemma separatorIndices_hd:
  assumes "\<exists>c\<in>set base. isSplitChar c"
  shows "separatorIndices base \<noteq> [] \<and>
         hd (separatorIndices base) = int (length (beforeFirstSeparator base))"
proof -
  let ?u = "length (takeWhile (\<lambda>x. x \<noteq> CHR ''_'') base)"
  let ?d = "length (takeWhile (\<lambda>x. x \<noteq> CHR ''-'') base)"
  have m: "length (beforeFirstSeparator base) = min ?u ?d"
    by (simp add: beforeFirstSeparator_def first_split_min)
  from assms have "CHR ''_'' \<in> set base \<or> CHR ''-'' \<in> set base"
    by (auto simp: isSplitChar_def)
  then consider (both) "CHR ''_'' \<in> set base" "CHR ''-'' \<in> set base"
    | (und) "CHR ''_'' \<in> set base" "CHR ''-'' \<notin> set base"
    | (dash) "CHR ''_'' \<notin> set base" "CHR ''-'' \<in> set base"
    by blast
  then show ?thesis
  proof cases
    case both
    then show ?thesis
      by (simp add: separatorIndices_def indexOf_takeWhile m min_def)
  next
    case und
    have "?u \<le> length base" by (rule length_takeWhile_le)
    moreover have "?d = length base" using und(2) by (rule first_split_absent)
    ultimately show ?thesis using und
      by (simp add: separatorIndices_def indexOf_takeWhile m min_def)
  next
    case dash
    have "?d \<le> length base" by (rule length_takeWhile_le)
    moreover have "?u = length base" using dash(1) by (rule first_split_absent)
    ultimately show ?thesis using dash
      by (simp add: separatorIndices_def indexOf_takeWhile m min_def)
  qed
qed

lemma take_before: "take (length (beforeFirstSeparator base)) base = beforeFirstSeparator base"
  by (simp add: beforeFirstSeparator_def takeWhile_eq_take[symmetric])

lemma drop_before:
  "drop (length (beforeFirstSeparator base)) base = dropWhile (\<lambda>c. \<not> isSplitChar c) base"
  by (simp add: beforeFirstSeparator_def dropWhile_eq_drop[symmetric])

lemma parseModelPrefix_split:
  assumes "\<exists>c\<in>set (stripExt f). isSplitChar c"
  shows "parseModelPrefix f = orElse (beforeFirstSeparator (stripExt f)) ''model''"
  using separatorIndices_hd[OF assms]
  by (simp add: parseModelPrefix_def Let_def take_before)


lemma isSpace_isSep: "isSpace c \<Longrightarrow> isSep c"
  by (simp add: isSep_def)

lemma trim_no_leading_space:
  assumes "q \<noteq> []" "\<not> isSpace (hd q)"
  shows "trim q = rev (dropWhile isSpace (rev q))"
  using assms by (cases q) (simp_all add: trim_def)

lemma cleaned_dropWhile:
  assumes "dropWhile isSep x \<noteq> []"
  shows "dropWhile isSep (trim (dropWhile isSep x)) = dropWhile isSep (trim x)"
proof -
  define p where "p = takeWhile isSep x"
  define q where "q = dropWhile isSep x"
  have x: "x = p @ q" by (simp add: p_def q_def)
  have q: "q \<noteq> []" using assms by (simp add: q_def)
  have hq: "\<not> isSep (hd q)" unfolding q_def using assms by (rule hd_dropWhile)
  then have hs: "\<not> isSpace (hd q)" using isSpace_isSep by blast
  have psep: "\<forall>c\<in>set p. isSep c" unfolding p_def by (auto dest: set_takeWhileD)
  define p' where "p' = dropWhile isSpace p"
  have p'sep: "\<forall>c\<in>set p'. isSep c" unfolding p'_def using psep by (auto dest: set_dropWhileD)
  have d1: "dropWhile isSpace (p @ q) = p' @ q"
  proof (cases "\<forall>c\<in>set p. isSpace c")
    case True
    then have "p' = []" by (simp add: p'_def)
    moreover from True have "dropWhile isSpace (p @ q) = dropWhile isSpace q" by simp
    moreover have "dropWhile isSpace q = q" using q hs by (cases q) simp_all
    ultimately show ?thesis by simp
  next
    case False
    then obtain c where "c \<in> set p" "\<not> isSpace c" by blast
    then show ?thesis by (simp add: p'_def dropWhile_append1)
  qed
  define r where "r = rev (dropWhile isSpace (rev q))"
  have hdq: "hd q \<in> set (rev q)" using q by simp
  have d2: "dropWhile isSpace (rev q @ rev p') = dropWhile isSpace (rev q) @ rev p'"
    using hdq hs by simp
  have tx: "trim x = p' @ r"
    by (simp add: trim_def x d1 d2 r_def)
  have tq: "trim q = r" using trim_no_leading_space[OF q hs] by (simp add: r_def)
  have "dropWhile isSep (p' @ r) = dropWhile isSep r" using p'sep by simp
  then show ?thesis using tx tq by (simp add: q_def)
qed

lemma normalizeId_dropWhile:
  assumes "dropWhile isSep x \<noteq> []"
  shows "normalizeId (dropWhile isSep x) = normalizeId x"
proof -
  from assms have ne: "x \<noteq> []" by auto
  note c = cleaned_dropWhile[OF assms]
  show ?thesis
    by (simp only: normalizeId_def Let_def c assms ne if_False)
qed

lemma lowerChar_split: "isSplitChar c \<Longrightarrow> lowerChar c = c"
  by (auto simp: isSplitChar_def lowerChar_def Let_def)

lemma startsWith_lower_take: "startsWith (toLowerCase base) (toLowerCase (take n base))"
  by (simp add: startsWith_def toLowerCase_def take_map[symmetric] min_def)

lemma not_startsWith_model:
  assumes "base \<noteq> []" "isSplitChar (hd base)"
  shows "\<not> startsWith (toLowerCase base) (toLowerCase ''model'')"
proof -
  obtain c cs where b: "base = c # cs" using assms(1) by (cases base) auto
  with assms(2) have "lowerChar c = c" "c \<noteq> CHR ''m''"
    by (auto simp: lowerChar_split isSplitChar_def)
  then show ?thesis
    by (simp add: b startsWith_def toLowerCase_def lowerChar_def)
qed

lemma residual_split:
  assumes "\<exists>c\<in>set base. isSplitChar c"
  shows "residual base (Some (orElse (beforeFirstSeparator base) ''model'')) =
         dropWhile isSep (afterFirstSeparator base)"
proof -
  define pre where "pre = beforeFirstSeparator base"
  define rest where "rest = dropWhile (\<lambda>c. \<not> isSplitChar c) base"
  have rest_ne: "rest \<noteq> []" using assms by (auto simp: rest_def)
  have hd_rest: "isSplitChar (hd rest)"
    using hd_dropWhile[of "\<lambda>c. \<not> isSplitChar c" base] rest_ne by (simp add: rest_def)
  have after: "afterFirstSeparator base = tl rest"
    by (simp add: afterFirstSeparator_def rest_def drop_Suc)
  have sep_hd: "isSep (hd rest)" using hd_rest by (auto simp: isSplitChar_def isSep_def)
  have strip: "dropWhile isSep rest = dropWhile isSep (tl rest)"
    using rest_ne sep_hd by (cases rest) simp_all
  show ?thesis
  proof (cases "pre = []")
    case False
    have "startsWith (toLowerCase base) (toLowerCase pre)"
      using startsWith_lower_take[of base "length pre"] by (simp add: pre_def take_before)
    moreover have "drop (length pre) base = rest" by (simp add: pre_def rest_def drop_before)
    ultimately show ?thesis using False
      by (simp add: residual_def orElse_def pre_def[symmetric] after strip)
  next
    case True
    then have base_rest: "base = rest"
      using takeWhile_dropWhile_id[of "\<lambda>c. \<not> isSplitChar c" base]
      by (simp add: pre_def rest_def beforeFirstSeparator_def)
    have ns: "\<not> startsWith (toLowerCase base) (toLowerCase ''model'')"
      using not_startsWith_model rest_ne hd_rest base_rest by simp
    have "hd (separatorIndices base) = 0" "separatorIndices base \<noteq> []"
      using separatorIndices_hd[OF assms] True by (simp_all add: pre_def)
    then have "restAfterSeparator base = tl rest"
      using base_rest by (simp add: restAfterSeparator_def Let_def drop_Suc)
    then show ?thesis using True ns
      by (simp add: residual_def orElse_def pre_def[symmetric] after)
  qed
qed

lemma parseIdSuffix_split:
  assumes "\<exists>c\<in>set (stripExt f). isSplitChar c"
  shows "parseIdSuffix f (Some (parseModelPrefix f)) =
         normalizeId (if dropWhile isSep (afterFirstSeparator (stripExt f)) = []
                      then stripExt f else afterFirstSeparator (stripExt f))"
proof -
  have r: "residual (stripExt f) (Some (parseModelPrefix f)) =
           dropWhile isSep (afterFirstSeparator (stripExt f))"
    by (simp only: parseModelPrefix_split[OF assms] residual_split[OF assms])
  have p: "parseIdSuffix f (Some (parseModelPrefix f)) =
           normalizeId (orElse (dropWhile isSep (afterFirstSeparator (stripExt f))) (stripExt f))"
    by (simp only: parseIdSuffix_def Let_def r)
  show ?thesis
  proof (cases "dropWhile isSep (afterFirstSeparator (stripExt f)) = []")
    case True
    then show ?thesis unfolding p orElse_def by simp
  next
    case False
    then show ?thesis unfolding p orElse_def
      by (simp only: if_False normalizeId_dropWhile[OF False])
  qed
qed

text \<open>
  C6, as it is stated (the model is the part of the base name before the first
  separator, the identifier the normalized part after it), fails for a name that starts
  with a separator: the part before it is empty, and the model is the label \<open>model\<close>.
\<close>

theorem parse_first_separator_counterexample:
  "\<not> parsesAtFirstSeparator ''_001.png'' \<and>
   parseModelPrefix ''_001.png'' = ''model'' \<and>
   beforeFirstSeparator (stripExt ''_001.png'') = []"
  by (simp add: parsesAtFirstSeparator_def parseModelPrefix_def separatorIndices_def orElse_def
      beforeFirstSeparator_def isSplitChar_def)

text \<open>
  C6, amended. For every filename whose base name (the name without its last extension)
  contains an underscore or a dash, the parser of the current variant yields as model
  the part of the base name before the first of them, or the label \<open>model\<close> when that
  part is empty; and as identifier the normalized part after that separator, or the
  normalized base name when nothing but separator characters follows the separator.
\<close>

theorem parse_first_separator:
  assumes "\<exists>c\<in>set (stripExt filename). isSplitChar c"
  shows "parseModelPrefix filename = orElse (beforeFirstSeparator (stripExt filename)) ''model'' \<and>
         parseIdSuffix filename (Some (parseModelPrefix filename)) =
           normalizeId (if dropWhile isSep (afterFirstSeparator (stripExt filename)) = []
                        then stripExt filename
                        else afterFirstSeparator (stripExt filename))"
  using parseModelPrefix_split[OF assms] parseIdSuffix_split[OF assms] by simp

theorem parse_first_separator_witness:
  "(\<exists>c\<in>set (stripExt ''alpha_001.png''). isSplitChar c) \<and>
   parseModelPrefix ''alpha_001.png'' = ''alpha'' \<and>
   parseIdSuffix ''alpha_001.png'' (Some (parseModelPrefix ''alpha_001.png'')) = ''1''"
proof -
  have h: "\<exists>c\<in>set (stripExt ''alpha_001.png''). isSplitChar c"
    by (simp add: isSplitChar_def)
  have b: "beforeFirstSeparator ''alpha_001'' = ''alpha''"
          "afterFirstSeparator ''alpha_001'' = ''001''"
    by (simp_all add: beforeFirstSeparator_def afterFirstSeparator_def isSplitChar_def)
  have n: "normalizeId ''001'' = ''1''"
    by (simp add: normalizeId_def trim_def isSpace_def isSep_def isDigit_def)
  note t = parse_first_separator[OF h]
  have m: "parseModelPrefix ''alpha_001.png'' = ''alpha''"
    using t[THEN conjunct1] by (simp add: b orElse_def)
  have i: "parseIdSuffix ''alpha_001.png'' (Some (parseModelPrefix ''alpha_001.png'')) = ''1''"
    using t[THEN conjunct2] by (simp add: b n isSep_def isSpace_def)
  from h m i show ?thesis by blast
qed

text \<open>
  The parser of the second variant takes the first part of the split with fewer parts.
  A name with underscores only has one part when split at dashes, so the whole base
  name becomes the model, and the identifier as well.
\<close>

lemma parseModelPrefix_v2_whole_base:
  "parseModelPrefix_v2 ''alpha_001.png'' = ''alpha_001'' \<and>
   parseIdSuffix_v2 ''alpha_001.png'' (Some (parseModelPrefix_v2 ''alpha_001.png'')) = ''alpha_001''"
  by (simp add: parseModelPrefix_v2_def parseIdSuffix_v2_def residual_def orElse_def
      startsWith_def toLowerCase_def)

section \<open>Properties of the instruction table\<close>

lemma csvLines_example: "csvLines csvExample = [''id;instruction'', ''001;Draw a cat'']"
  by (simp add: csvExample_def csvLines_def trim_def isSpace_def)

lemma csvLines_commaRow: "csvLines csvCommaRow = [''id;instruction'', ''001,Draw a cat'']"
  by (simp add: csvCommaRow_def csvLines_def trim_def isSpace_def)

lemma detectDelim_header: "detectDelim ''id;instruction'' = CHR '';''"
  by (simp add: detectDelim_def countChar_def)

lemma rowEntry_header: "rowEntry CHR '';'' 0 ''id;instruction'' = None"
  by (simp add: rowEntry_def trim_def isSpace_def stripQuotes_def toLowerCase_def lowerChar_def)

lemma rowEntry_cat: "rowEntry CHR '';'' (Suc 0) ''001;Draw a cat'' = Some (''001'', ''Draw a cat'')"
  by (simp add: rowEntry_def trim_def isSpace_def stripQuotes_def)

lemma rowEntry_comma: "rowEntry CHR '';'' (Suc 0) ''001,Draw a cat'' = None"
  by (simp add: rowEntry_def)

lemma normalizeId_001: "normalizeId ''001'' = ''1''"
  by (simp add: normalizeId_def trim_def isSpace_def isSep_def isDigit_def)

lemma parse_example:
  "parseInstructionsCSV csvExample ''001'' = Some ''Draw a cat'' \<and>
   parseInstructionsCSV csvExample ''1'' = Some ''Draw a cat''"
  by (simp add: parseInstructionsCSV_def csvLines_example detectDelim_header enumerate_eq_zip
      csvStep_def rowEntry_header rowEntry_cat normalizeId_001 setString_def upt_rec Let_def)

lemma parse_commaRow: "parseInstructionsCSV csvCommaRow = Map.empty"
  by (simp add: parseInstructionsCSV_def csvLines_commaRow detectDelim_header enumerate_eq_zip
      csvStep_def rowEntry_header rowEntry_comma upt_rec)

lemma cex: "\<not> registersEveryRow csvCommaRow \<and> parseInstructionsCSV csvCommaRow ''001'' = None"
  by (simp add: registersEveryRow_def csvLines_commaRow parse_commaRow)


lemma countChar_count_list: "countChar c s = count_list s c"
  by (induction s) (auto simp: countChar_def)

lemma csvStep_skip: "rowEntry d (fst row) (snd row) = None \<Longrightarrow> csvStep d m row = m"
  by (simp add: csvStep_def)

lemma csvStep_other: "k \<notin> rowKeys d (fst row) (snd row) \<Longrightarrow> csvStep d m row k = m k"
  by (auto simp: csvStep_def rowKeys_def setString_def Let_def split: option.splits)

lemma csvStep_registers:
  assumes "rowEntry d (fst row) (snd row) = Some (rid, instruction)"
  shows "csvStep d m row (normalizeId rid) = Some instruction"
    and "rid \<noteq> ''__proto__'' \<Longrightarrow> csvStep d m row rid = Some instruction"
  using assms normalizeId_not_proto[of rid]
  by (auto simp: csvStep_def setString_def Let_def)

lemma csvStep_dom: "k \<in> dom m \<Longrightarrow> k \<in> dom (csvStep d m row)"
  by (auto simp: csvStep_def setString_def Let_def split: option.splits)

lemma foldl_csvStep_dom: "k \<in> dom m \<Longrightarrow> k \<in> dom (foldl (csvStep d) m rows)"
  by (induction rows arbitrary: m) (simp_all add: csvStep_dom)

lemma foldl_csvStep_other:
  "\<forall>row\<in>set rows. k \<notin> rowKeys d (fst row) (snd row) \<Longrightarrow> foldl (csvStep d) m rows k = m k"
  by (induction rows arbitrary: m) (simp_all add: csvStep_other)

text \<open>A row of the loop, split off: the rows before it, the row, the rows after it.\<close>

lemma foldl_csvStep_row:
  assumes "rowEntry d (fst row) (snd row) = Some (rid, instruction)"
      and "k = normalizeId rid \<or> (k = rid \<and> rid \<noteq> ''__proto__'')"
  shows "k \<in> dom (foldl (csvStep d) m (before @ row # after))"
    and "\<forall>r\<in>set after. k \<notin> rowKeys d (fst r) (snd r) \<Longrightarrow>
           foldl (csvStep d) m (before @ row # after) k = Some instruction"
proof -
  let ?m = "foldl (csvStep d) m before"
  have r: "csvStep d ?m row k = Some instruction"
    using assms csvStep_registers[OF assms(1), of ?m] by auto
  then have "k \<in> dom (csvStep d ?m row)" by auto
  then show "k \<in> dom (foldl (csvStep d) m (before @ row # after))"
    by (simp add: foldl_csvStep_dom)
  assume "\<forall>r\<in>set after. k \<notin> rowKeys d (fst r) (snd r)"
  then show "foldl (csvStep d) m (before @ row # after) k = Some instruction"
    using r by (simp add: foldl_csvStep_other)
qed

lemma enumerate_split:
  assumes "i < length xs"
  shows "enumerate 0 xs = enumerate 0 (take i xs) @ (i, xs ! i) # enumerate (Suc i) (drop (Suc i) xs)"
proof -
  have "xs = take i xs @ xs ! i # drop (Suc i) xs"
    using assms by (simp add: id_take_nth_drop)
  then have "enumerate 0 xs = enumerate 0 (take i xs @ xs ! i # drop (Suc i) xs)" by simp
  also have "\<dots> = enumerate 0 (take i xs) @ enumerate (0 + length (take i xs)) (xs ! i # drop (Suc i) xs)"
    by (rule enumerate_append_eq)
  finally show ?thesis using assms by (simp add: min_def)
qed

lemma in_enumerate_drop:
  assumes "r \<in> set (enumerate (Suc i) (drop (Suc i) xs))"
  shows "i < fst r \<and> fst r < length xs \<and> snd r = xs ! fst r"
proof -
  from assms obtain n where "n < length (drop (Suc i) xs)" "r = (Suc i + n, drop (Suc i) xs ! n)"
    by (auto simp: in_set_conv_nth nth_enumerate_eq)
  then show ?thesis by auto
qed

lemma parse_row:
  assumes "i < length (csvLines text)"
      and "rowEntry (csvDelim text) i (csvLines text ! i) = Some (rid, instruction)"
      and "k = normalizeId rid \<or> (k = rid \<and> rid \<noteq> ''__proto__'')"
  shows "k \<in> dom (parseInstructionsCSV text)"
    and "\<forall>j. i < j \<and> j < length (csvLines text) \<longrightarrow> k \<notin> rowKeys (csvDelim text) j (csvLines text ! j)
         \<Longrightarrow> parseInstructionsCSV text k = Some instruction"
proof -
  let ?ls = "csvLines text" and ?d = "csvDelim text"
  from assms(1) have ne: "length ?ls \<noteq> 0" by auto
  have p: "parseInstructionsCSV text =
           foldl (csvStep ?d) Map.empty
             (enumerate 0 (take i ?ls) @ (i, ?ls ! i) # enumerate (Suc i) (drop (Suc i) ?ls))"
    using ne enumerate_split[OF assms(1)]
    by (simp add: parseInstructionsCSV_def csvDelim_def Let_def)
  have e: "rowEntry ?d (fst (i, ?ls ! i)) (snd (i, ?ls ! i)) = Some (rid, instruction)"
    using assms(2) by simp
  show "k \<in> dom (parseInstructionsCSV text)"
    unfolding p by (rule foldl_csvStep_row(1)[OF e assms(3)])
  assume later: "\<forall>j. i < j \<and> j < length ?ls \<longrightarrow> k \<notin> rowKeys ?d j (?ls ! j)"
  have "\<forall>r\<in>set (enumerate (Suc i) (drop (Suc i) ?ls)). k \<notin> rowKeys ?d (fst r) (snd r)"
  proof
    fix r assume "r \<in> set (enumerate (Suc i) (drop (Suc i) ?ls))"
    from in_enumerate_drop[OF this] later show "k \<notin> rowKeys ?d (fst r) (snd r)" by auto
  qed
  then show "parseInstructionsCSV text k = Some instruction"
    unfolding p by (rule foldl_csvStep_row(2)[OF e assms(3)])
qed


lemma rowEntry_explicit:
  assumes "delim \<in> set line"
      and "rid = stripQuotes (trim (takeWhile (\<lambda>c. c \<noteq> delim) line))"
      and "instruction = stripQuotes (trim (drop 1 (dropWhile (\<lambda>c. c \<noteq> delim) line)))"
      and "rid \<noteq> []" and "\<not> (i = 0 \<and> toLowerCase rid = ''id'')"
  shows "rowEntry delim i line = Some (rid, instruction)"
proof -
  let ?n = "length (takeWhile (\<lambda>c. c \<noteq> delim) line)"
  have idx: "indexOf line delim = int ?n" using assms(1) by (simp add: indexOf_takeWhile)
  have t: "take ?n line = takeWhile (\<lambda>c. c \<noteq> delim) line"
    by (simp add: takeWhile_eq_take[symmetric])
  have d: "drop (Suc ?n) line = drop 1 (dropWhile (\<lambda>c. c \<noteq> delim) line)"
    by (simp add: dropWhile_eq_drop)
  have n: "nat (int ?n + 1) = Suc ?n" by simp
  show ?thesis
    unfolding rowEntry_def Let_def idx n nat_int t d
    using assms(2-5) by auto
qed

text \<open>
  C8, as it is stated, fails for a row that does not use the delimiter of the header:
  under the header \<open>id;instruction\<close> the row \<open>001,Draw a cat\<close> has no semicolon, its
  turn of the loop ends at \<^verbatim>\<open>if (idx < 0) continue\<close>, and the table stays empty.
\<close>

theorem parseInstructionsCSV_counterexample:
  "\<not> registersEveryRow csvCommaRow \<and>
   parseInstructionsCSV csvCommaRow ''001'' = None \<and>
   parseInstructionsCSV csvCommaRow ''1'' = None"
  by (simp add: registersEveryRow_def csvLines_commaRow parse_commaRow)

text \<open>
  C8, amended. The delimiter is the semicolon whenever the first non-blank line has
  at least as many semicolons as commas, and the comma otherwise. Every non-blank line
  that contains the delimiter and has a non-empty identifier other than
  \<^verbatim>\<open>__proto__\<close> (the identifier is the text before the first delimiter, trimmed,
  without a double quote at its start and at its end) is registered under that
  identifier and under its normalized form, except a first line whose identifier is
  \<open>id\<close> in any letter case; a key holds the instruction (the text after the first
  delimiter, trimmed and unquoted likewise) of the last line that registers it. What
  a line whose identifier is \<^verbatim>\<open>__proto__\<close> registers is left aside. In particular the
  table with the header \<open>id;instruction\<close> and the row \<open>001;Draw a cat\<close> gives
  \<open>Draw a cat\<close> for the key \<open>001\<close> and for the key \<open>1\<close>.
\<close>

theorem parseInstructionsCSV_registers:
  assumes "i < length (csvLines text)" and "line = csvLines text ! i"
      and "delim = csvDelim text" and "delim \<in> set line"
      and "rid = stripQuotes (trim (takeWhile (\<lambda>c. c \<noteq> delim) line))"
      and "instruction = stripQuotes (trim (drop 1 (dropWhile (\<lambda>c. c \<noteq> delim) line)))"
      and "rid \<noteq> []" and "\<not> (i = 0 \<and> toLowerCase rid = ''id'')"
      and "rid \<noteq> ''__proto__''"
  shows "delim = (if count_list (hd (csvLines text)) CHR '';''
                      \<ge> count_list (hd (csvLines text)) CHR '','' then CHR '';'' else CHR '','') \<and>
         parseInstructionsCSV text rid \<noteq> None \<and>
         parseInstructionsCSV text (normalizeId rid) \<noteq> None \<and>
         (\<forall>k\<in>{rid, normalizeId rid}.
            (\<forall>j. i < j \<and> j < length (csvLines text) \<longrightarrow> k \<notin> rowKeys delim j (csvLines text ! j))
            \<longrightarrow> parseInstructionsCSV text k = Some instruction) \<and>
         parseInstructionsCSV csvExample ''001'' = Some ''Draw a cat'' \<and>
         parseInstructionsCSV csvExample ''1'' = Some ''Draw a cat''"
proof -
  have e: "rowEntry (csvDelim text) i (csvLines text ! i) = Some (rid, instruction)"
    using rowEntry_explicit[OF assms(4-8)] assms(2,3) by simp
  have k1: "rid = normalizeId rid \<or> (rid = rid \<and> rid \<noteq> ''__proto__'')" using assms(9) by simp
  have k2: "normalizeId rid = normalizeId rid \<or> (normalizeId rid = rid \<and> rid \<noteq> ''__proto__'')"
    by simp
  have d: "delim = (if count_list (hd (csvLines text)) CHR '';''
                      \<ge> count_list (hd (csvLines text)) CHR '','' then CHR '';'' else CHR '','')"
    by (simp add: assms(3) csvDelim_def detectDelim_def countChar_count_list)
  have r1: "parseInstructionsCSV text rid \<noteq> None"
    using parse_row(1)[OF assms(1) e k1] by auto
  have r2: "parseInstructionsCSV text (normalizeId rid) \<noteq> None"
    using parse_row(1)[OF assms(1) e k2] by auto
  have v: "\<forall>k\<in>{rid, normalizeId rid}.
            (\<forall>j. i < j \<and> j < length (csvLines text) \<longrightarrow> k \<notin> rowKeys delim j (csvLines text ! j))
            \<longrightarrow> parseInstructionsCSV text k = Some instruction"
    using parse_row(2)[OF assms(1) e k1] parse_row(2)[OF assms(1) e k2] assms(3) by auto
  from d r1 r2 v parse_example show ?thesis by blast
qed

theorem parseInstructionsCSV_registers_witness:
  "1 < length (csvLines csvExample) \<and> csvLines csvExample ! 1 = ''001;Draw a cat'' \<and>
   csvDelim csvExample = CHR '';'' \<and> CHR '';'' \<in> set ''001;Draw a cat'' \<and>
   parseInstructionsCSV csvExample ''001'' \<noteq> None \<and>
   parseInstructionsCSV csvExample (normalizeId ''001'') \<noteq> None \<and>
   parseInstructionsCSV csvExample ''001'' = Some ''Draw a cat''"
proof -
  have l: "1 < length (csvLines csvExample)" "csvLines csvExample ! 1 = ''001;Draw a cat''"
    by (simp_all add: csvLines_example)
  have d: "csvDelim csvExample = CHR '';''"
    by (simp add: csvDelim_def csvLines_example detectDelim_header)
  have m: "CHR '';'' \<in> set ''001;Draw a cat''" by simp
  have r: "''001'' = stripQuotes (trim (takeWhile (\<lambda>c. c \<noteq> CHR '';'') ''001;Draw a cat''))"
    by (simp add: stripQuotes_def trim_def isSpace_def)
  have ins: "''Draw a cat'' =
       stripQuotes (trim (drop 1 (dropWhile (\<lambda>c. c \<noteq> CHR '';'') ''001;Draw a cat'')))"
    by (simp add: stripQuotes_def trim_def isSpace_def)
  have ne: "''001'' \<noteq> []" "\<not> ((1::nat) = 0 \<and> toLowerCase ''001'' = ''id'')" "''001'' \<noteq> ''__proto__''"
    by simp_all
  note t = parseInstructionsCSV_registers[OF l(1) l(2)[symmetric] d[symmetric] m r ins ne]
  have last: "\<forall>j. 1 < j \<and> j < length (csvLines csvExample) \<longrightarrow>
                ''001'' \<notin> rowKeys CHR '';'' j (csvLines csvExample ! j)"
    by (auto simp: csvLines_example)
  from t last have "parseInstructionsCSV csvExample ''001'' = Some ''Draw a cat''" by blast
  with t l d m show ?thesis by blast
qed


section \<open>Properties of the session operations\<close>

lemma alpha1_eq:
  "alpha1 = \<lparr>fileObj = Some (File ''alpha_001.png''), url = ''blob:a1'', model = ''alpha'',
             name = ''alpha_001.png'', ident = ''1'', source = Upload\<rparr>"
  by (simp add: alpha1_def uploaded_def parseModelPrefix_def parseIdSuffix_def
      separatorIndices_def orElse_def residual_def startsWith_def toLowerCase_def lowerChar_def
      normalizeId_def trim_def isSpace_def isSep_def isDigit_def)

lemma beta1_eq:
  "beta1 = \<lparr>fileObj = Some (File ''beta_001.png''), url = ''blob:b1'', model = ''beta'',
            name = ''beta_001.png'', ident = ''1'', source = Upload\<rparr>"
  by (simp add: beta1_def uploaded_def parseModelPrefix_def parseIdSuffix_def
      separatorIndices_def orElse_def residual_def startsWith_def toLowerCase_def lowerChar_def
      normalizeId_def trim_def isSpace_def isSep_def isDigit_def)

lemma models_ex: "models [alpha1, beta1] = [''alpha'', ''beta'']"
  by (simp add: alpha1_eq beta1_eq models_def newSet_def setAdd_def)

lemma twoModels_ex: "twoModels [alpha1, beta1] = Some (''alpha'', ''beta'')"
  by (simp add: twoModels_def models_ex itemAt_def)

lemma isArrayIndex_1: "isArrayIndex ''1''"
  by (simp add: isArrayIndex_def isDigit_def digitsValue_def)

lemma buildMaps_ex:
  "buildMaps ''alpha'' ''beta'' [alpha1, beta1] =
     (\<lparr>own = [(''1'', alpha1)], proto = None\<rparr>, \<lparr>own = [(''1'', beta1)], proto = None\<rparr>)"
  by (simp add: buildMaps_def alpha1_eq beta1_eq assign_def emptyObject_def)

lemma commonIds_ex: "commonIds ''alpha'' ''beta'' [alpha1, beta1] = [''1'']"
  by (simp add: commonIds_def buildMaps_ex objectKeys_def isArrayIndex_1 lookup_def)

lemma newPairs_ex:
  "newPairs zeros ''alpha'' ''beta'' [alpha1, beta1] = [\<lparr>left = Image alpha1, right = Image beta1\<rparr>]"
  by (simp add: newPairs_def buildMaps_ex commonIds_ex shuffleArray_def lookup_def
      randomLow_def zeros_def)

lemma merge_ex: "mergeUniqueByUrl [] [alpha1, beta1] = [alpha1, beta1]"
  by (simp add: mergeUniqueByUrl_def newSet_def setAdd_def alpha1_eq beta1_eq)

lemma playingSession_eq:
  "playingSession = (initial (Finite 20))\<lparr>images := [alpha1, beta1],
      pairs := [\<lparr>left = Image alpha1, right = Image beta1\<rparr>], phase := Playing\<rparr>"
  by (simp add: playingSession_def initial_def merge_ex startArena_def twoModels_ex
      commonIds_ex newPairs_ex)

lemma model_alpha1: "model alpha1 = ''alpha''"
  by (simp add: alpha1_eq)

lemma finishedSession_eq:
  "finishedSession = (initial (Finite 20))\<lparr>images := [alpha1, beta1],
      pairs := [\<lparr>left = Image alpha1, right = Image beta1\<rparr>], phase := Results,
      votesRef := [firstVote]\<rparr>"
  by (simp add: finishedSession_def playingSession_eq initial_def vote_def itemAt_def timerFired_def
      finish_def firstVote_def model_alpha1 models_ex Let_def)


text \<open>
  C1, as it is stated, fails: the button for a new session only sets the phase. After a
  finished session of one round the catalog still holds its two images, and the pair and
  the vote are still there.
\<close>

theorem newSession_counterexample:
  "phase finishedSession = Results \<and>
   images (fst (step NewSessionClicked finishedSession)) \<noteq> [] \<and>
   pairs (fst (step NewSessionClicked finishedSession)) \<noteq> [] \<and>
   votesRef (fst (step NewSessionClicked finishedSession)) \<noteq> []"
  by (simp add: finishedSession_eq newSession_def initial_def)

text \<open>
  C1, amended. Starting a new session from the results phase returns the session to the
  configuration phase and changes nothing else: the catalog, the pairs, the vote log and
  the cursor stay as they were. It is the next successful start that empties the vote
  log, replaces the pairs and resets the cursor.
\<close>

theorem newSession_keeps_state:
  assumes "phase s = Results"
  shows "step NewSessionClicked s = (s\<lparr>phase := Config\<rparr>, []) \<and>
         (phase (fst (step (StartClicked rnd) (s\<lparr>phase := Config\<rparr>))) = Playing \<longrightarrow>
            votesRef (fst (step (StartClicked rnd) (s\<lparr>phase := Config\<rparr>))) = [] \<and>
            current (fst (step (StartClicked rnd) (s\<lparr>phase := Config\<rparr>))) = 0 \<and>
            images (fst (step (StartClicked rnd) (s\<lparr>phase := Config\<rparr>))) = images s)"
  using assms
  by (auto simp: newSession_def startArena_def split: option.splits prod.splits)

theorem newSession_keeps_state_witness:
  "phase finishedSession = Results \<and>
   phase (fst (step NewSessionClicked finishedSession)) = Config \<and>
   images (fst (step NewSessionClicked finishedSession)) = [alpha1, beta1] \<and>
   votesRef (fst (step NewSessionClicked finishedSession)) = [firstVote] \<and>
   phase (fst (step (StartClicked zeros) (finishedSession\<lparr>phase := Config\<rparr>))) = Playing \<and>
   votesRef (fst (step (StartClicked zeros) (finishedSession\<lparr>phase := Config\<rparr>))) = []"
proof -
  have r: "phase finishedSession = Results" by (simp add: finishedSession_eq)
  have i: "images finishedSession = [alpha1, beta1]" "votesRef finishedSession = [firstVote]"
    by (simp_all add: finishedSession_eq initial_def)
  have p: "phase (fst (step (StartClicked zeros) (finishedSession\<lparr>phase := Config\<rparr>))) = Playing"
    by (simp add: i startArena_def twoModels_ex commonIds_ex)
  note t = newSession_keeps_state[OF r, of zeros]
  from t r i p show ?thesis by simp
qed

text \<open>
  The two failing branches of the start, as the code takes them: fewer than two models
  are detected, or no identifier of the first model passes the test
  \<^verbatim>\<open>map2[id]\<close>. Each reports an error and returns before anything is written, so
  the whole state is as it was.
\<close>

lemma startArena_failure_keeps_state:
  assumes "length (models (images s)) < 2 \<or>
           commonIds (models (images s) ! 0) (models (images s) ! 1) (images s) = []"
  shows "fst (startArena rnd s) = s \<and>
         (\<exists>msg. snd (startArena rnd s) = [ToastError msg]) \<and>
         fst (step (StartClicked rnd) s) = s"
  using assms
  by (auto simp: startArena_def twoModels_def itemAt_def split: option.splits prod.splits if_splits)

text \<open>
  C10. In a state with no pair at the cursor (the cursor is at or past the end of the
  pairs, which may be empty), a vote for any choice does nothing, in both variants: no
  vote is appended, no timer is armed, nothing is exported, and the phase, the cursor
  and every other part of the state stay as they were.
\<close>

theorem vote_without_pair:
  "(length (pairs s) \<le> current s \<longrightarrow>
      vote c s = s \<and> step (VoteClicked c) s = (s, []) \<and> step (KeyDown key) s = (s, [])) \<and>
   (length (pairs s2) \<le> current s2 \<longrightarrow> vote_v2 now c2 s2 = (s2, []))"
  by (simp add: vote_def vote_v2_def itemAt_def handleKeyDown_def)

theorem vote_without_pair_witness:
  "length (pairs (initial (Finite 20))) \<le> current (initial (Finite 20)) \<and>
   vote Left (initial (Finite 20)) = initial (Finite 20) \<and>
   step (KeyDown ''ArrowLeft'') (initial (Finite 20)) = (initial (Finite 20), []) \<and>
   length (pairs (initial_v2 (Finite 20))) \<le> current (initial_v2 (Finite 20)) \<and>
   vote_v2 0 VTie (initial_v2 (Finite 20)) = (initial_v2 (Finite 20), [])"
proof -
  have h: "length (pairs (initial (Finite 20))) \<le> current (initial (Finite 20))" by (simp add: initial_def)
  have h2: "length (pairs (initial_v2 (Finite 20))) \<le> current (initial_v2 (Finite 20))"
    by (simp add: initial_v2_def)
  from vote_without_pair[of "initial (Finite 20)" Left "''ArrowLeft''" "initial_v2 (Finite 20)" 0 VTie] h h2
  show ?thesis by blast
qed


section \<open>Properties of the aggregator\<close>

lemma map_of_putOwn: "map_of (putOwn k v w) = (map_of w)(k \<mapsto> v)"
  by (induction w) (auto simp: fun_eq_iff)

lemma readWins_increment_same:
  "readWins w k = Num a \<Longrightarrow> map_of w k \<noteq> None \<Longrightarrow> readWins (increment w k) k = Num (a + 1)"
  by (auto simp: readWins_def increment_def map_of_putOwn plusOne_def split: option.splits)

lemma own_increment_other:
  "map_of w k \<noteq> None \<Longrightarrow> k' \<noteq> k \<Longrightarrow> map_of (increment w k) k' = map_of w k'"
  by (auto simp: increment_def map_of_putOwn split: option.splits)

lemma own_increment_same:
  "map_of w k = Some n \<Longrightarrow> map_of (increment w k) k = Some (plusOne n)"
  by (auto simp: increment_def map_of_putOwn split: option.splits)

text \<open>The counts of two distinct own keys, and their sum, along the loop.\<close>

lemma countWinner_sum:
  assumes "m1 \<noteq> []" "m2 \<noteq> []" "m1 \<noteq> m2"
      and "\<forall>v\<in>set vs. winnerModel v = Some m1 \<or> winnerModel v = Some m2"
      and "map_of w m1 = Some (Num a)" "map_of w m2 = Some (Num b)"
  shows "\<exists>a' b'. map_of (foldl countWinner w vs) m1 = Some (Num a') \<and>
                 map_of (foldl countWinner w vs) m2 = Some (Num b') \<and>
                 a' + b' = a + b + length vs"
  using assms(4-6)
proof (induction vs arbitrary: w a b)
  case Nil
  then show ?case by simp
next
  case (Cons v vs)
  from Cons.prems(1) have "winnerModel v = Some m1 \<or> winnerModel v = Some m2" by simp
  then show ?case
  proof
    assume v: "winnerModel v = Some m1"
    have 1: "map_of (countWinner w v) m1 = Some (Num (a + 1))"
      using v assms(1) Cons.prems(2) by (simp add: countWinner_def own_increment_same plusOne_def)
    have 2: "map_of (countWinner w v) m2 = Some (Num b)"
      using v assms(1,3) Cons.prems(2,3) by (simp add: countWinner_def own_increment_other)
    from Cons.IH[OF _ 1 2] Cons.prems(1) show ?thesis by auto
  next
    assume v: "winnerModel v = Some m2"
    have 1: "map_of (countWinner w v) m1 = Some (Num a)"
      using v assms(2,3) Cons.prems(2,3) by (simp add: countWinner_def own_increment_other)
    have 2: "map_of (countWinner w v) m2 = Some (Num (b + 1))"
      using v assms(2) Cons.prems(3) by (simp add: countWinner_def own_increment_same plusOne_def)
    from Cons.IH[OF _ 1 2] Cons.prems(1) show ?thesis by auto
  qed
qed

lemma initialWins_own:
  "m1 \<noteq> m2 \<Longrightarrow> map_of (initialWins (Some m1) (Some m2)) m1 = Some (Num 0) \<and>
                  map_of (initialWins (Some m1) (Some m2)) m2 = Some (Num 0)"
  by (simp add: initialWins_def keyOf_def map_of_putOwn)

lemma arenaResult_invariant:
  assumes "m1 \<noteq> []" "m2 \<noteq> []" "m1 \<noteq> m2"
      and "\<forall>v\<in>set vs. winnerModel v = Some m1 \<or> winnerModel v = Some m2"
  shows "\<exists>a b. readWins (winsByModel (arenaResult now [m1, m2] rds vs)) m1 = Num a \<and>
               readWins (winsByModel (arenaResult now [m1, m2] rds vs)) m2 = Num b \<and>
               a + b + ties (arenaResult now [m1, m2] rds vs)
                 + bothBad (arenaResult now [m1, m2] rds vs)
                 = roundsCompleted (arenaResult now [m1, m2] rds vs) \<and>
               roundsCompleted (arenaResult now [m1, m2] rds vs) = length vs"
proof -
  from initialWins_own[OF assms(3)]
  have i: "map_of (initialWins (Some m1) (Some m2)) m1 = Some (Num 0)"
          "map_of (initialWins (Some m1) (Some m2)) m2 = Some (Num 0)" by simp_all
  from countWinner_sum[OF assms i]
  obtain a b where
    "map_of (foldl countWinner (initialWins (Some m1) (Some m2)) vs) m1 = Some (Num a)"
    "map_of (foldl countWinner (initialWins (Some m1) (Some m2)) vs) m2 = Some (Num b)"
    "a + b = length vs" by auto
  then show ?thesis
    by (auto simp: arenaResult_def itemAt_def readWins_def Let_def)
qed

text \<open>The second variant: ties and rounds with both images bad are counted apart.\<close>

lemma countVote_v2_sum:
  assumes "m1 \<noteq> []" "m2 \<noteq> []" "m1 \<noteq> m2"
      and "\<forall>v\<in>set vs. choice v = VTie \<or> choice v = VBoth \<or>
             winnerModel v = Some m1 \<or> winnerModel v = Some m2"
      and "map_of (wins t) m1 = Some (Num a)" "map_of (wins t) m2 = Some (Num b)"
  shows "\<exists>a' b'. map_of (wins (foldl countVote_v2 t vs)) m1 = Some (Num a') \<and>
                 map_of (wins (foldl countVote_v2 t vs)) m2 = Some (Num b') \<and>
                 a' + b' + tieCount (foldl countVote_v2 t vs)
                   + bothBadCount (foldl countVote_v2 t vs)
                   = a + b + tieCount t + bothBadCount t + length vs"
  using assms(4-6)
proof (induction vs arbitrary: t a b)
  case Nil
  then show ?case by simp
next
  case (Cons v vs)
  from Cons.prems(1) have rest: "\<forall>v\<in>set vs. choice v = VTie \<or> choice v = VBoth \<or>
             winnerModel v = Some m1 \<or> winnerModel v = Some m2" by simp
  consider (tie) "choice v = VTie" | (both) "choice v \<noteq> VTie" "choice v = VBoth"
    | (one) "choice v \<noteq> VTie" "choice v \<noteq> VBoth" "winnerModel v = Some m1"
    | (two) "choice v \<noteq> VTie" "choice v \<noteq> VBoth" "winnerModel v = Some m2"
    using Cons.prems(1) by auto
  then show ?case
  proof cases
    case tie
    have s: "countVote_v2 t v = t\<lparr>tieCount := tieCount t + 1\<rparr>"
      using tie by (simp add: countVote_v2_def)
    from Cons.IH[of "t\<lparr>tieCount := tieCount t + 1\<rparr>" a b, OF rest] Cons.prems(2,3)
    show ?thesis by (auto simp: s)
  next
    case both
    have s: "countVote_v2 t v = t\<lparr>bothBadCount := bothBadCount t + 1\<rparr>"
      using both by (simp add: countVote_v2_def)
    from Cons.IH[of "t\<lparr>bothBadCount := bothBadCount t + 1\<rparr>" a b, OF rest] Cons.prems(2,3)
    show ?thesis by (auto simp: s)
  next
    case one
    have s: "countVote_v2 t v = t\<lparr>wins := increment (wins t) m1\<rparr>"
      using one assms(1) by (simp add: countVote_v2_def countWinner_def)
    have 1: "map_of (wins (t\<lparr>wins := increment (wins t) m1\<rparr>)) m1 = Some (Num (a + 1))"
      using Cons.prems(2) by (simp add: own_increment_same plusOne_def)
    have 2: "map_of (wins (t\<lparr>wins := increment (wins t) m1\<rparr>)) m2 = Some (Num b)"
      using assms(3) Cons.prems(2,3) by (simp add: own_increment_other)
    from Cons.IH[OF rest 1 2] show ?thesis by (auto simp: s)
  next
    case two
    have s: "countVote_v2 t v = t\<lparr>wins := increment (wins t) m2\<rparr>"
      using two assms(2) by (simp add: countVote_v2_def countWinner_def)
    have 1: "map_of (wins (t\<lparr>wins := increment (wins t) m2\<rparr>)) m1 = Some (Num a)"
      using assms(3) Cons.prems(2,3) by (simp add: own_increment_other)
    have 2: "map_of (wins (t\<lparr>wins := increment (wins t) m2\<rparr>)) m2 = Some (Num (b + 1))"
      using Cons.prems(3) by (simp add: own_increment_same plusOne_def)
    from Cons.IH[OF rest 1 2] show ?thesis by (auto simp: s)
  qed
qed

lemma arenaResult_v2_invariant:
  assumes "m1 \<noteq> []" "m2 \<noteq> []" "m1 \<noteq> m2"
      and "\<forall>v\<in>set vs. choice v = VTie \<or> choice v = VBoth \<or>
             winnerModel v = Some m1 \<or> winnerModel v = Some m2"
  shows "\<exists>a b. readWins (winsByModel (arenaResult_v2 now [m1, m2] rds vs)) m1 = Num a \<and>
               readWins (winsByModel (arenaResult_v2 now [m1, m2] rds vs)) m2 = Num b \<and>
               a + b + ties (arenaResult_v2 now [m1, m2] rds vs)
                 + bothBad (arenaResult_v2 now [m1, m2] rds vs)
                 = roundsCompleted (arenaResult_v2 now [m1, m2] rds vs) \<and>
               roundsCompleted (arenaResult_v2 now [m1, m2] rds vs) = length vs"
proof -
  let ?t = "\<lparr>wins = initialWins (Some m1) (Some m2), tieCount = 0, bothBadCount = 0\<rparr>"
  from initialWins_own[OF assms(3)]
  have i: "map_of (wins ?t) m1 = Some (Num 0)" "map_of (wins ?t) m2 = Some (Num 0)" by simp_all
  from countVote_v2_sum[OF assms i]
  obtain a b where
    "map_of (wins (foldl countVote_v2 ?t vs)) m1 = Some (Num a)"
    "map_of (wins (foldl countVote_v2 ?t vs)) m2 = Some (Num b)"
    "a + b + tieCount (foldl countVote_v2 ?t vs) + bothBadCount (foldl countVote_v2 ?t vs)
       = length vs" by auto
  then show ?thesis
    by (auto simp: arenaResult_v2_def itemAt_def readWins_def Let_def)
qed


text \<open>
  What the aggregator does with a log whose every winner is one of the two detected
  models \<open>m1\<close> and \<open>m2\<close> (two different, non-empty labels), a tie or a round with both
  images bad of the second variant having no winner: the exported result satisfies
  \<open>winsByModel[m1] + winsByModel[m2] + ties + bothBad = roundsCompleted\<close>, and
  \<open>roundsCompleted\<close> is the length of the log, in both variants. A vote for a member
  of a pair that is not an image has no winner and is in no count.
\<close>

lemma finish_counts_every_vote:
  assumes "m1 \<noteq> []" "m2 \<noteq> []" "m1 \<noteq> m2"
  shows
    "((\<forall>v\<in>set (votesRef s). winnerModel v = Some m1 \<or> winnerModel v = Some m2) \<longrightarrow>
        (\<exists>toast r w a b.
           snd (finish now [m1, m2] rds s) = [ToastSuccess toast, Download now r w] \<and>
           votes r = votesRef s \<and>
           readWins (winsByModel r) m1 = Num a \<and> readWins (winsByModel r) m2 = Num b \<and>
           a + b + ties r + bothBad r = roundsCompleted r \<and>
           roundsCompleted r = length (votesRef s))) \<and>
     (models (images s2) = [m1, m2] \<and>
      (\<forall>v\<in>set (votesRef s2). choice v = VTie \<or> choice v = VBoth \<or>
          winnerModel v = Some m1 \<or> winnerModel v = Some m2) \<longrightarrow>
        (\<exists>toast r w a b.
           snd (finish_v2 now s2) = [ToastSuccess toast, Download now r w] \<and>
           votes r = votesRef s2 \<and>
           readWins (winsByModel r) m1 = Num a \<and> readWins (winsByModel r) m2 = Num b \<and>
           a + b + ties r + bothBad r = roundsCompleted r \<and>
           roundsCompleted r = length (votesRef s2)))"
proof (intro conjI impI)
  assume h: "\<forall>v\<in>set (votesRef s). winnerModel v = Some m1 \<or> winnerModel v = Some m2"
  let ?r = "arenaResult now [m1, m2] rds (votesRef s)"
  from arenaResult_invariant[OF assms h, of now rds]
  obtain a b where
    "readWins (winsByModel ?r) m1 = Num a" "readWins (winsByModel ?r) m2 = Num b"
    "a + b + ties ?r + bothBad ?r = roundsCompleted ?r" "roundsCompleted ?r = length (votesRef s)"
    by blast
  moreover have "votes ?r = votesRef s" by (simp add: arenaResult_def Let_def)
  moreover have "\<exists>toast w. snd (finish now [m1, m2] rds s) = [ToastSuccess toast, Download now ?r w]"
    by (simp add: finish_def Let_def)
  ultimately show "\<exists>toast r w a b.
           snd (finish now [m1, m2] rds s) = [ToastSuccess toast, Download now r w] \<and>
           votes r = votesRef s \<and>
           readWins (winsByModel r) m1 = Num a \<and> readWins (winsByModel r) m2 = Num b \<and>
           a + b + ties r + bothBad r = roundsCompleted r \<and>
           roundsCompleted r = length (votesRef s)"
    by blast
next
  assume h: "models (images s2) = [m1, m2] \<and>
      (\<forall>v\<in>set (votesRef s2). choice v = VTie \<or> choice v = VBoth \<or>
          winnerModel v = Some m1 \<or> winnerModel v = Some m2)"
  let ?r = "arenaResult_v2 now [m1, m2] (rounds s2) (votesRef s2)"
  from h have hv: "\<forall>v\<in>set (votesRef s2). choice v = VTie \<or> choice v = VBoth \<or>
          winnerModel v = Some m1 \<or> winnerModel v = Some m2" by blast
  from arenaResult_v2_invariant[OF assms hv, of now "rounds s2"]
  obtain a b where
    "readWins (winsByModel ?r) m1 = Num a" "readWins (winsByModel ?r) m2 = Num b"
    "a + b + ties ?r + bothBad ?r = roundsCompleted ?r" "roundsCompleted ?r = length (votesRef s2)"
    by blast
  moreover have "votes ?r = votesRef s2" by (simp add: arenaResult_v2_def Let_def)
  moreover have "\<exists>toast w. snd (finish_v2 now s2) = [ToastSuccess toast, Download now ?r w]"
    using h by (simp add: finish_v2_def Let_def)
  ultimately show "\<exists>toast r w a b.
           snd (finish_v2 now s2) = [ToastSuccess toast, Download now r w] \<and>
           votes r = votesRef s2 \<and>
           readWins (winsByModel r) m1 = Num a \<and> readWins (winsByModel r) m2 = Num b \<and>
           a + b + ties r + bothBad r = roundsCompleted r \<and>
           roundsCompleted r = length (votesRef s2)"
    by blast
qed

lemma finish_counts_every_vote_example:
  "votesRef finishedSession = [firstVote] \<and> winnerModel firstVote = Some ''alpha'' \<and>
   (\<exists>toast r w a b.
      snd (finish 0 [''alpha'', ''beta''] (Finite 20) finishedSession) = [ToastSuccess toast, Download 0 r w] \<and>
      readWins (winsByModel r) ''alpha'' = Num a \<and> readWins (winsByModel r) ''beta'' = Num b \<and>
      a + b + ties r + bothBad r = roundsCompleted r \<and> roundsCompleted r = 1) \<and>
   models (images votedSession_v2) = [''alpha'', ''beta''] \<and>
   map choice (votesRef votedSession_v2) = [VTie, VLeft] \<and>
   (\<exists>toast r w a b.
      snd (finish_v2 0 votedSession_v2) = [ToastSuccess toast, Download 0 r w] \<and>
      readWins (winsByModel r) ''alpha'' = Num a \<and> readWins (winsByModel r) ''beta'' = Num b \<and>
      a + b + ties r + bothBad r = roundsCompleted r \<and> roundsCompleted r = 2)"
proof -
  have v: "votesRef finishedSession = [firstVote]" by (simp add: finishedSession_eq initial_def)
  have w: "winnerModel firstVote = Some ''alpha''" by (simp add: firstVote_def)
  have m: "models (images votedSession_v2) = [''alpha'', ''beta'']"
    by (simp add: votedSession_v2_def models_ex)
  have c: "map choice (votesRef votedSession_v2) = [VTie, VLeft]"
    by (simp add: votedSession_v2_def)
  have h1: "\<forall>v\<in>set (votesRef finishedSession).
              winnerModel v = Some ''alpha'' \<or> winnerModel v = Some ''beta''"
    by (simp add: v w)
  have h2: "\<forall>v\<in>set (votesRef votedSession_v2). choice v = VTie \<or> choice v = VBoth \<or>
              winnerModel v = Some ''alpha'' \<or> winnerModel v = Some ''beta''"
    by (simp add: votedSession_v2_def)
  have l: "length (votesRef votedSession_v2) = 2" by (simp add: votedSession_v2_def)
  note t = finish_counts_every_vote[of "''alpha''" "''beta''" finishedSession 0 "Finite 20" votedSession_v2]
  from t h1 have 1: "\<exists>toast r w a b.
      snd (finish 0 [''alpha'', ''beta''] (Finite 20) finishedSession) = [ToastSuccess toast, Download 0 r w] \<and>
      readWins (winsByModel r) ''alpha'' = Num a \<and> readWins (winsByModel r) ''beta'' = Num b \<and>
      a + b + ties r + bothBad r = roundsCompleted r \<and> roundsCompleted r = 1"
    by (simp add: v) blast
  from t h2 m have 2: "\<exists>toast r w a b.
      snd (finish_v2 0 votedSession_v2) = [ToastSuccess toast, Download 0 r w] \<and>
      readWins (winsByModel r) ''alpha'' = Num a \<and> readWins (winsByModel r) ''beta'' = Num b \<and>
      a + b + ties r + bothBad r = roundsCompleted r \<and> roundsCompleted r = 2"
    by (simp add: l) blast
  from v w 1 m c 2 show ?thesis by blast
qed


section \<open>Properties of the pair matcher\<close>

subsection \<open>Own properties\<close>

lemma keys_putOwn: "fst ` set (putOwn k v w) = insert k (fst ` set w)"
  by (induction w) auto

lemma distinct_putOwn: "distinct (map fst w) \<Longrightarrow> distinct (map fst (putOwn k v w))"
proof (induction w)
  case Nil
  then show ?case by simp
next
  case (Cons p ps)
  have "fst ` set (putOwn k v ps) = insert k (fst ` set ps)" by (rule keys_putOwn)
  with Cons show ?case by (auto simp: image_iff)
qed

lemma set_objectKeys: "set (objectKeys m) = fst ` set (own m)"
  by (auto simp: objectKeys_def Let_def)

lemma distinct_objectKeys: "distinct (map fst (own m)) \<Longrightarrow> distinct (objectKeys m)"
  by (auto simp: objectKeys_def Let_def)

lemma truthy_fromObjectPrototype: "truthy (fromObjectPrototype k) = (k \<in> set inheritedKeys)"
  by (auto simp: fromObjectPrototype_def inheritedKeys_def)

lemma lookup_no_proto:
  "proto m = None \<Longrightarrow>
   lookup m k = (case map_of (own m) k of Some img \<Rightarrow> Image img | None \<Rightarrow> fromObjectPrototype k)"
  by (simp add: lookup_def split: option.splits)

lemma truthy_lookup:
  assumes "proto m = None" "k \<notin> set inheritedKeys"
  shows "truthy (lookup m k) = (k \<in> fst ` set (own m))"
proof (cases "map_of (own m) k")
  case None
  then have "k \<notin> fst ` set (own m)" by (simp add: map_of_eq_None_iff)
  with None assms show ?thesis by (simp add: lookup_no_proto truthy_fromObjectPrototype)
next
  case (Some img)
  then have "k \<in> fst ` set (own m)" by (metis map_of_eq_None_iff option.distinct(1))
  with Some assms show ?thesis by (simp add: lookup_no_proto)
qed

subsection \<open>Detected models\<close>

lemma distinct_foldl_setAdd: "distinct acc \<Longrightarrow> distinct (foldl setAdd acc xs)"
  by (induction xs arbitrary: acc) (auto simp: setAdd_def)

lemma distinct_newSet: "distinct (newSet xs)"
  by (simp add: newSet_def distinct_foldl_setAdd)

lemma set_foldl_setAdd: "set (foldl setAdd acc xs) = set acc \<union> set xs"
  by (induction xs arbitrary: acc) (auto simp: setAdd_def)

lemma set_newSet: "set (newSet xs) = set xs"
  by (simp add: newSet_def set_foldl_setAdd)

lemma distinct_models: "distinct (models imgs)"
  by (simp add: models_def distinct_newSet)

lemma twoModels_distinct:
  assumes "twoModels imgs = Some (m1, m2)"
  shows "m1 \<noteq> m2 \<and> m1 \<noteq> [] \<and> m2 \<noteq> [] \<and> models imgs = [m1, m2]"
proof -
  from assms have l: "1 < length (models imgs)"
    and m: "m1 = models imgs ! 0" "m2 = models imgs ! 1" and ne: "m1 \<noteq> []" "m2 \<noteq> []"
    by (auto simp: twoModels_def itemAt_def split: if_splits)
  have "length (models imgs) \<le> 2" by (simp add: models_def)
  with l have "length (models imgs) = 2" by simp
  then obtain a b where ab: "models imgs = [a, b]"
    by (metis (no_types, opaque_lifting) One_nat_def Suc_1 length_0_conv length_Suc_conv)
  with distinct_models[of imgs] have "a \<noteq> b" by simp
  with ab m ne show ?thesis by simp
qed

subsection \<open>The two dictionaries\<close>

lemma buildMaps_Nil: "buildMaps m1 m2 [] = (emptyObject, emptyObject)"
  by (simp add: buildMaps_def)

lemma buildMaps_snoc:
  "buildMaps m1 m2 (xs @ [x]) =
     (if model x = m1 then (assign (fst (buildMaps m1 m2 xs)) (ident x) x, snd (buildMaps m1 m2 xs))
      else if model x = m2 then (fst (buildMaps m1 m2 xs), assign (snd (buildMaps m1 m2 xs)) (ident x) x)
      else buildMaps m1 m2 xs)"
  by (simp add: buildMaps_def case_prod_beta)

lemma idsOf_snoc:
  "idsOf m (xs @ [x]) = (if model x = m then insert (ident x) (idsOf m xs) else idsOf m xs)"
  by (auto simp: idsOf_def)

lemma buildMaps_invariant:
  assumes "m1 \<noteq> m2"
      and "\<forall>img\<in>set imgs. model img \<in> {m1, m2} \<longrightarrow> ident img \<noteq> ''__proto__''"
  shows "proto (fst (buildMaps m1 m2 imgs)) = None \<and> proto (snd (buildMaps m1 m2 imgs)) = None \<and>
         fst ` set (own (fst (buildMaps m1 m2 imgs))) = idsOf m1 imgs \<and>
         fst ` set (own (snd (buildMaps m1 m2 imgs))) = idsOf m2 imgs \<and>
         distinct (map fst (own (fst (buildMaps m1 m2 imgs)))) \<and>
         distinct (map fst (own (snd (buildMaps m1 m2 imgs)))) \<and>
         (\<forall>k v. map_of (own (fst (buildMaps m1 m2 imgs))) k = Some v \<longrightarrow>
                  v \<in> set imgs \<and> model v = m1 \<and> ident v = k) \<and>
         (\<forall>k v. map_of (own (snd (buildMaps m1 m2 imgs))) k = Some v \<longrightarrow>
                  v \<in> set imgs \<and> model v = m2 \<and> ident v = k)"
  using assms(2)
proof (induction imgs rule: rev_induct)
  case Nil
  then show ?case by (simp add: buildMaps_Nil emptyObject_def idsOf_def)
next
  case (snoc x xs)
  then have IH: "proto (fst (buildMaps m1 m2 xs)) = None \<and> proto (snd (buildMaps m1 m2 xs)) = None \<and>
         fst ` set (own (fst (buildMaps m1 m2 xs))) = idsOf m1 xs \<and>
         fst ` set (own (snd (buildMaps m1 m2 xs))) = idsOf m2 xs \<and>
         distinct (map fst (own (fst (buildMaps m1 m2 xs)))) \<and>
         distinct (map fst (own (snd (buildMaps m1 m2 xs)))) \<and>
         (\<forall>k v. map_of (own (fst (buildMaps m1 m2 xs))) k = Some v \<longrightarrow>
                  v \<in> set xs \<and> model v = m1 \<and> ident v = k) \<and>
         (\<forall>k v. map_of (own (snd (buildMaps m1 m2 xs))) k = Some v \<longrightarrow>
                  v \<in> set xs \<and> model v = m2 \<and> ident v = k)"
    by simp
  consider (one) "model x = m1" | (two) "model x \<noteq> m1" "model x = m2"
    | (other) "model x \<noteq> m1" "model x \<noteq> m2" by blast
  then show ?case
  proof cases
    case one
    with snoc.prems have np: "ident x \<noteq> ''__proto__''" by simp
    from one assms(1) have n2: "model x \<noteq> m2" by simp
    show ?thesis using IH one n2 np
      by (auto simp: buildMaps_snoc idsOf_snoc assign_def keys_putOwn distinct_putOwn
          map_of_putOwn split: if_splits)
  next
    case two
    with snoc.prems have np: "ident x \<noteq> ''__proto__''" by simp
    show ?thesis using IH two np
      by (auto simp: buildMaps_snoc idsOf_snoc assign_def keys_putOwn distinct_putOwn
          map_of_putOwn split: if_splits)
  next
    case other
    show ?thesis using IH other
      by (auto simp: buildMaps_snoc idsOf_snoc)
  qed
qed


subsection \<open>Matched identifiers\<close>

lemma commonIds_set:
  assumes "m1 \<noteq> m2"
      and "\<forall>img\<in>set imgs. model img \<in> {m1, m2} \<longrightarrow> ident img \<notin> set inheritedKeys"
  shows "set (commonIds m1 m2 imgs) = idsOf m1 imgs \<inter> idsOf m2 imgs"
    and "distinct (commonIds m1 m2 imgs)"
proof -
  have np: "\<forall>img\<in>set imgs. model img \<in> {m1, m2} \<longrightarrow> ident img \<noteq> ''__proto__''"
    using assms(2) by (auto simp: inheritedKeys_def)
  note inv = buildMaps_invariant[OF assms(1) np]
  let ?A = "fst (buildMaps m1 m2 imgs)" and ?B = "snd (buildMaps m1 m2 imgs)"
  have c: "commonIds m1 m2 imgs = filter (\<lambda>k. truthy (lookup ?B k)) (objectKeys ?A)"
    by (simp add: commonIds_def case_prod_beta)
  have ids1: "\<And>k. k \<in> idsOf m1 imgs \<Longrightarrow> k \<notin> set inheritedKeys"
    using assms(2) by (auto simp: idsOf_def)
  have t: "\<And>k. k \<in> idsOf m1 imgs \<Longrightarrow> truthy (lookup ?B k) = (k \<in> idsOf m2 imgs)"
    using truthy_lookup[of ?B] inv ids1 by simp
  show "set (commonIds m1 m2 imgs) = idsOf m1 imgs \<inter> idsOf m2 imgs"
    using inv t by (auto simp: c set_objectKeys)
  show "distinct (commonIds m1 m2 imgs)"
    using inv by (simp add: c distinct_objectKeys)
qed

subsection \<open>Shuffling\<close>

lemma randomBelow_less: "0 < n \<Longrightarrow> randomBelow rnd k n < n"
proof -
  assume n: "0 < n"
  have "rnd k mod 2 ^ 53 < (2 ^ 53 :: nat)" by simp
  then have "(rnd k mod 2 ^ 53) * n < n * 2 ^ 53" using n by (simp add: mult.commute)
  then show ?thesis unfolding randomBelow_def by (rule less_mult_imp_div_less)
qed

lemma mset_shuffleLoop: "i < length a \<Longrightarrow> mset (shuffleLoop rnd k i a) = mset a"
proof (induction i arbitrary: k a)
  case 0
  then show ?case by simp
next
  case (Suc i)
  let ?j = "randomBelow rnd k (Suc i + 1)"
  have "?j < Suc i + 1" by (rule randomBelow_less) simp
  with Suc.prems have j: "?j < length a" by simp
  have "mset (a[Suc i := a ! ?j, ?j := a ! Suc i]) = mset a"
    using Suc.prems j by (simp add: mset_swap)
  moreover have "i < length (a[Suc i := a ! ?j, ?j := a ! Suc i])" using Suc.prems by simp
  ultimately show ?case using Suc.IH by (simp add: Let_def)
qed

lemma mset_shuffleArray: "mset (shuffleArray rnd xs) = mset xs"
proof (cases xs)
  case Nil
  then show ?thesis by (simp add: shuffleArray_def)
next
  case (Cons y ys)
  then have "length xs - 1 < length xs" by simp
  then show ?thesis unfolding shuffleArray_def by (rule mset_shuffleLoop)
qed

lemma mset_insertRandom: "mset (fst (insertRandom rnd k x ys)) = add_mset x (mset ys)"
  by (induction ys arbitrary: k) (auto simp: case_prod_beta)

lemma mset_sortRandom: "mset (fst (sortRandom rnd k xs)) = mset xs"
  by (induction xs arbitrary: k) (auto simp: case_prod_beta mset_insertRandom)

lemma length_shuffleArray: "length (shuffleArray rnd xs) = length xs"
  using mset_shuffleArray[of rnd xs] by (metis size_mset)

lemma set_shuffleArray: "set (shuffleArray rnd xs) = set xs"
  using mset_shuffleArray[of rnd xs] by (metis set_mset_mset)

lemma length_sortRandom: "length (fst (sortRandom rnd k xs)) = length xs"
  using mset_sortRandom[of rnd k xs] by (metis size_mset)

lemma set_sortRandom: "set (fst (sortRandom rnd k xs)) = set xs"
  using mset_sortRandom[of rnd k xs] by (metis set_mset_mset)

subsection \<open>Pairs\<close>

lemma length_buildPairs: "length (buildPairs rnd k A B ids) = length ids"
  by (induction ids arbitrary: k) (simp_all add: Let_def)

lemma set_buildPairs:
  "p \<in> set (buildPairs rnd k A B ids) \<Longrightarrow>
   \<exists>i\<in>set ids. (left p = lookup A i \<and> right p = lookup B i) \<or>
               (left p = lookup B i \<and> right p = lookup A i)"
  by (induction ids arbitrary: k) (auto simp: Let_def split: if_splits)

lemma length_newPairs: "length (newPairs rnd m1 m2 imgs) = length (commonIds m1 m2 imgs)"
  by (simp add: newPairs_def case_prod_beta Let_def length_buildPairs length_shuffleArray)

text \<open>
  The loop of the second variant makes the pairs of the first identifiers of the order,
  as many as there are indices below the bound: for a finite bound \<open>m\<close>, the whole
  numbers from 0 that are less than \<open>m\<close>.
\<close>

lemma pairLoop_take: "\<exists>n. pairLoop rnd k A B mx i xs = buildPairs rnd k A B (take n xs)"
proof (induction xs arbitrary: k i)
  case Nil
  show ?case by simp
next
  case (Cons x xs)
  show ?case
  proof (cases "below i mx")
    case True
    from Cons[of "Suc k" "Suc i"] obtain n
      where n: "pairLoop rnd (Suc k) A B mx (Suc i) xs = buildPairs rnd (Suc k) A B (take n xs)" ..
    show ?thesis by (rule exI[of _ "Suc n"]) (simp add: True n Let_def)
  next
    case False
    show ?thesis by (rule exI[of _ 0]) (simp add: False)
  qed
qed

lemma below_ceiling: "below i (Finite m) \<longleftrightarrow> i < nat \<lceil>m\<rceil>"
proof -
  have "real i < m \<longleftrightarrow> int i < \<lceil>m\<rceil>" by (simp add: less_ceiling_iff)
  also have "\<dots> \<longleftrightarrow> i < nat \<lceil>m\<rceil>" by (simp add: zless_nat_eq_int_zless)
  finally show ?thesis by (simp add: below_def)
qed

lemma length_pairLoop:
  "length (pairLoop rnd k A B (Finite m) i xs) = min (length xs) (nat \<lceil>m\<rceil> - i)"
proof (induction xs arbitrary: k i)
  case Nil
  show ?case by simp
next
  case (Cons x xs)
  show ?case
  proof (cases "below i (Finite m)")
    case True
    then have "i < nat \<lceil>m\<rceil>" by (simp only: below_ceiling)
    then have s: "nat \<lceil>m\<rceil> - i = Suc (nat \<lceil>m\<rceil> - Suc i)" by (rule Suc_diff_Suc[symmetric])
    have "length (pairLoop rnd k A B (Finite m) i (x # xs))
            = Suc (length (pairLoop rnd (Suc k) A B (Finite m) (Suc i) xs))"
      using True by (simp add: Let_def)
    also have "\<dots> = Suc (min (length xs) (nat \<lceil>m\<rceil> - Suc i))"
      by (simp only: Cons[of "Suc k" "Suc i"])
    also have "\<dots> = min (length (x # xs)) (nat \<lceil>m\<rceil> - i)"
      unfolding s by (simp only: list.size min_Suc_Suc Suc_eq_plus1)
    finally show ?thesis .
  next
    case False
    then have "\<not> i < nat \<lceil>m\<rceil>" using below_ceiling[of i m] by blast
    then have "nat \<lceil>m\<rceil> \<le> i" by (rule leI)
    then have z: "nat \<lceil>m\<rceil> - i = 0" by (rule diff_is_0_eq')
    have "pairLoop rnd k A B (Finite m) i (x # xs) = []" using False by simp
    then show ?thesis unfolding z by (simp only: list.size min_0R)
  qed
qed

lemma ceiling_min_le: "nat \<lceil>min r (real n)\<rceil> \<le> n"
proof -
  have "\<lceil>min r (real n)\<rceil> \<le> int n" by (simp add: ceiling_le_iff)
  then show ?thesis by simp
qed

lemma length_newPairs_v2:
  "length (newPairs_v2 rnd (Finite r) m1 m2 imgs) =
     nat \<lceil>min r (real (length (commonIds m1 m2 imgs)))\<rceil>"
  using ceiling_min_le[of r "length (commonIds m1 m2 imgs)"]
  by (simp add: newPairs_v2_def case_prod_beta Let_def mathMin_def length_pairLoop
      length_sortRandom)

lemma length_newPairs_v2_whole:
  "length (newPairs_v2 rnd (Finite (real n)) m1 m2 imgs) = min n (length (commonIds m1 m2 imgs))"
proof -
  have "min (real n) (real (length (commonIds m1 m2 imgs)))
          = real (min n (length (commonIds m1 m2 imgs)))"
    by simp
  then show ?thesis unfolding length_newPairs_v2 by (simp only: ceiling_of_nat nat_int)
qed

text \<open>
  Where no identifier of the two models is a key that every plain object inherits, each
  pair holds an image of each model, with one identifier.
\<close>

lemma pairs_of_two_models:
  assumes "m1 \<noteq> m2"
      and "\<forall>img\<in>set imgs. model img \<in> {m1, m2} \<longrightarrow> ident img \<notin> set inheritedKeys"
      and "p \<in> set (newPairs rnd m1 m2 imgs) \<or> p \<in> set (newPairs_v2 rnd rds m1 m2 imgs)"
  shows "\<exists>a b. a \<in> set imgs \<and> b \<in> set imgs \<and> model a = m1 \<and> model b = m2 \<and>
               ident a = ident b \<and>
               ((left p = Image a \<and> right p = Image b) \<or> (left p = Image b \<and> right p = Image a))"
proof -
  have np: "\<forall>img\<in>set imgs. model img \<in> {m1, m2} \<longrightarrow> ident img \<noteq> ''__proto__''"
    using assms(2) by (auto simp: inheritedKeys_def)
  note inv = buildMaps_invariant[OF assms(1) np]
  let ?A = "fst (buildMaps m1 m2 imgs)" and ?B = "snd (buildMaps m1 m2 imgs)"
  let ?ids = "commonIds m1 m2 imgs"
  from assms(3) obtain ids k where ids: "set ids \<subseteq> set ?ids" and p: "p \<in> set (buildPairs rnd k ?A ?B ids)"
  proof
    assume "p \<in> set (newPairs rnd m1 m2 imgs)"
    then have "p \<in> set (buildPairs rnd (length ?ids - 1) ?A ?B (shuffleArray rnd ?ids))"
      by (simp add: newPairs_def case_prod_beta Let_def)
    then show ?thesis using that[of "shuffleArray rnd ?ids"] by (simp add: set_shuffleArray)
  next
    assume "p \<in> set (newPairs_v2 rnd rds m1 m2 imgs)"
    then have l: "p \<in> set (pairLoop rnd (snd (sortRandom rnd 0 ?ids)) ?A ?B
                 (mathMin rds (length (fst (sortRandom rnd 0 ?ids)))) 0 (fst (sortRandom rnd 0 ?ids)))"
      by (simp add: newPairs_v2_def case_prod_beta Let_def)
    from pairLoop_take obtain n where
      "pairLoop rnd (snd (sortRandom rnd 0 ?ids)) ?A ?B
         (mathMin rds (length (fst (sortRandom rnd 0 ?ids)))) 0 (fst (sortRandom rnd 0 ?ids))
       = buildPairs rnd (snd (sortRandom rnd 0 ?ids)) ?A ?B (take n (fst (sortRandom rnd 0 ?ids)))"
      by blast
    with l have "p \<in> set (buildPairs rnd (snd (sortRandom rnd 0 ?ids)) ?A ?B
                   (take n (fst (sortRandom rnd 0 ?ids))))" by simp
    moreover have "set (take n (fst (sortRandom rnd 0 ?ids))) \<subseteq> set ?ids"
      using set_take_subset[of n "fst (sortRandom rnd 0 ?ids)"] by (simp add: set_sortRandom)
    ultimately show ?thesis using that by blast
  qed
  from set_buildPairs[OF p] obtain i where i: "i \<in> set ids"
    and lr: "(left p = lookup ?A i \<and> right p = lookup ?B i) \<or>
             (left p = lookup ?B i \<and> right p = lookup ?A i)" by blast
  from i ids commonIds_set(1)[OF assms(1,2)] have i12: "i \<in> idsOf m1 imgs" "i \<in> idsOf m2 imgs"
    by auto
  from i12(1) inv obtain a where a: "map_of (own ?A) i = Some a"
    by (metis map_of_eq_None_iff not_Some_eq)
  from i12(2) inv obtain b where b: "map_of (own ?B) i = Some b"
    by (metis map_of_eq_None_iff not_Some_eq)
  from a b inv have la: "lookup ?A i = Image a" and lb: "lookup ?B i = Image b"
    by (simp_all add: lookup_no_proto)
  from a b inv have "a \<in> set imgs \<and> b \<in> set imgs \<and> model a = m1 \<and> model b = m2 \<and> ident a = ident b"
    by metis
  with lr la lb show ?thesis by auto
qed


subsection \<open>Session start\<close>

lemma alpha2_eq:
  "alpha2 = \<lparr>fileObj = Some (File ''alpha_002.png''), url = ''blob:a2'', model = ''alpha'',
             name = ''alpha_002.png'', ident = ''2'', source = Upload\<rparr>"
  by (simp add: alpha2_def uploaded_def parseModelPrefix_def parseIdSuffix_def
      separatorIndices_def orElse_def residual_def startsWith_def toLowerCase_def lowerChar_def
      normalizeId_def trim_def isSpace_def isSep_def isDigit_def)

lemma beta2_eq:
  "beta2 = \<lparr>fileObj = Some (File ''beta_002.png''), url = ''blob:b2'', model = ''beta'',
            name = ''beta_002.png'', ident = ''2'', source = Upload\<rparr>"
  by (simp add: beta2_def uploaded_def parseModelPrefix_def parseIdSuffix_def
      separatorIndices_def orElse_def residual_def startsWith_def toLowerCase_def lowerChar_def
      normalizeId_def trim_def isSpace_def isSep_def isDigit_def)

lemma alphaConstructor_eq:
  "alphaConstructor = \<lparr>fileObj = Some (File ''alpha_constructor.png''), url = ''blob:ac'',
             model = ''alpha'', name = ''alpha_constructor.png'', ident = ''constructor'',
             source = Upload\<rparr>"
  by (simp add: alphaConstructor_def uploaded_def parseModelPrefix_def parseIdSuffix_def
      separatorIndices_def orElse_def residual_def startsWith_def toLowerCase_def lowerChar_def
      normalizeId_def trim_def isSpace_def isSep_def isDigit_def)

lemma four_images:
  "models [alpha1, beta1, alpha2, beta2] = [''alpha'', ''beta'']"
  "idsOf ''alpha'' [alpha1, beta1, alpha2, beta2] = {''1'', ''2''}"
  "idsOf ''beta'' [alpha1, beta1, alpha2, beta2] = {''1'', ''2''}"
  by (auto simp: alpha1_eq beta1_eq alpha2_eq beta2_eq models_def newSet_def setAdd_def idsOf_def)

lemma four_images_ids:
  "\<forall>img\<in>set [alpha1, beta1, alpha2, beta2].
      model img \<in> {''alpha'', ''beta''} \<longrightarrow> ident img \<notin> set inheritedKeys"
  by (simp add: alpha1_eq beta1_eq alpha2_eq beta2_eq inheritedKeys_def prototypeFunctions_def)

text \<open>
  C5, as it is stated, fails in the current variant: it applies no round cap. With
  \<open>rounds\<close> at 1 and two matched identifiers, the start produces two pairs.
\<close>

theorem pair_count_counterexample:
  "rounds ((initial (Finite 1))\<lparr>images := [alpha1, beta1, alpha2, beta2]\<rparr>) = Finite 1 \<and>
   card (idsOf ''alpha'' [alpha1, beta1, alpha2, beta2] \<inter> idsOf ''beta'' [alpha1, beta1, alpha2, beta2]) = 2 \<and>
   length (pairs (fst (startArena zeros ((initial (Finite 1))\<lparr>images := [alpha1, beta1, alpha2, beta2]\<rparr>)))) = 2"
proof -
  have t: "twoModels [alpha1, beta1, alpha2, beta2] = Some (''alpha'', ''beta'')"
    by (simp add: twoModels_def four_images itemAt_def)
  have c: "card (idsOf ''alpha'' [alpha1, beta1, alpha2, beta2] \<inter>
                 idsOf ''beta'' [alpha1, beta1, alpha2, beta2]) = 2"
    by (simp add: four_images)
  have d: "distinct (commonIds ''alpha'' ''beta'' [alpha1, beta1, alpha2, beta2])"
    and e: "set (commonIds ''alpha'' ''beta'' [alpha1, beta1, alpha2, beta2]) = {''1'', ''2''}"
    using commonIds_set[OF _ four_images_ids] by (simp_all add: four_images)
  from d e have l: "length (commonIds ''alpha'' ''beta'' [alpha1, beta1, alpha2, beta2]) = 2"
    using distinct_card[OF d] by simp
  from l have n: "commonIds ''alpha'' ''beta'' [alpha1, beta1, alpha2, beta2] \<noteq> []" by auto
  show ?thesis
    by (simp add: c initial_def startArena_def t l n length_newPairs)
qed

text \<open>
  C5, amended. For every catalog with two detected models in which no image of the two
  models has an identifier that is a key every plain object inherits (the members of
  \<^verbatim>\<open>Object.prototype\<close>), the matched identifiers are the intersection of the
  identifiers of the two models. When that intersection is not empty, the start of the
  current variant produces as many pairs as it has members, whatever \<open>rounds\<close> is; the
  start of the second variant, where \<open>rounds\<close> is a finite number \<open>r\<close>, produces one
  pair for every whole number from 0 that is less than the smaller of \<open>r\<close> and the size
  of the intersection: that smaller number itself when \<open>r\<close> is a whole number, and the
  next whole number above it otherwise.
\<close>

theorem matched_ids_and_pair_count:
  assumes "twoModels imgs = Some (m1, m2)"
      and "\<forall>img\<in>set imgs. model img \<in> {m1, m2} \<longrightarrow> ident img \<notin> set inheritedKeys"
      and "images s = imgs" and "images s2 = imgs" and "rounds s2 = Finite r"
  shows "set (commonIds m1 m2 imgs) = idsOf m1 imgs \<inter> idsOf m2 imgs \<and>
         (idsOf m1 imgs \<inter> idsOf m2 imgs \<noteq> {} \<longrightarrow>
            length (pairs (fst (startArena rnd s))) = card (idsOf m1 imgs \<inter> idsOf m2 imgs) \<and>
            length (pairs (fst (startArena_v2 rnd s2))) =
              nat \<lceil>min r (real (card (idsOf m1 imgs \<inter> idsOf m2 imgs)))\<rceil> \<and>
            (\<forall>n. r = real n \<longrightarrow>
               length (pairs (fst (startArena_v2 rnd s2))) =
                 min n (card (idsOf m1 imgs \<inter> idsOf m2 imgs))))"
proof -
  from twoModels_distinct[OF assms(1)] have ne: "m1 \<noteq> m2" by simp
  note c = commonIds_set[OF ne assms(2)]
  have l: "length (commonIds m1 m2 imgs) = card (idsOf m1 imgs \<inter> idsOf m2 imgs)"
    using distinct_card[OF c(2)] c(1) by simp
  show ?thesis
  proof (intro conjI impI allI)
    show "set (commonIds m1 m2 imgs) = idsOf m1 imgs \<inter> idsOf m2 imgs" by (rule c(1))
  next
    assume "idsOf m1 imgs \<inter> idsOf m2 imgs \<noteq> {}"
    then have n: "commonIds m1 m2 imgs \<noteq> []" using c(1) by auto
    then show "length (pairs (fst (startArena rnd s))) = card (idsOf m1 imgs \<inter> idsOf m2 imgs)"
      using assms(1,3) by (simp add: startArena_def length_newPairs l[symmetric])
  next
    assume "idsOf m1 imgs \<inter> idsOf m2 imgs \<noteq> {}"
    then have n: "commonIds m1 m2 imgs \<noteq> []" using c(1) by auto
    then have "pairs (fst (startArena_v2 rnd s2)) = newPairs_v2 rnd (Finite r) m1 m2 imgs"
      using assms(1,4,5) by (simp add: startArena_v2_def)
    then show "length (pairs (fst (startArena_v2 rnd s2))) =
              nat \<lceil>min r (real (card (idsOf m1 imgs \<inter> idsOf m2 imgs)))\<rceil>"
      by (simp only: length_newPairs_v2 l)
  next
    fix n
    assume "idsOf m1 imgs \<inter> idsOf m2 imgs \<noteq> {}" and r: "r = real n"
    then have "commonIds m1 m2 imgs \<noteq> []" using c(1) by auto
    then have "pairs (fst (startArena_v2 rnd s2)) = newPairs_v2 rnd (Finite (real n)) m1 m2 imgs"
      using assms(1,4,5) r by (simp add: startArena_v2_def)
    then show "length (pairs (fst (startArena_v2 rnd s2))) =
              min n (card (idsOf m1 imgs \<inter> idsOf m2 imgs))"
      by (simp only: length_newPairs_v2_whole l)
  qed
qed

text \<open>
  For instance, with two matched identifiers and the field for the rounds set to 1.5,
  the second variant makes two pairs.
\<close>

theorem matched_ids_and_pair_count_witness:
  "twoModels [alpha1, beta1, alpha2, beta2] = Some (''alpha'', ''beta'') \<and>
   ident alpha1 = ''1'' \<and> ident beta1 = ''1'' \<and> ident alpha2 = ''2'' \<and> ident beta2 = ''2'' \<and>
   rounds (roundsChanged_v2 (Finite (3 / 2))
             ((initial_v2 (Finite 20))\<lparr>images := [alpha1, beta1, alpha2, beta2]\<rparr>)) = Finite (3 / 2) \<and>
   set (commonIds ''alpha'' ''beta'' [alpha1, beta1, alpha2, beta2]) = {''1'', ''2''} \<and>
   length (pairs (fst (startArena zeros ((initial (Finite 20))\<lparr>images := [alpha1, beta1, alpha2, beta2]\<rparr>)))) = 2 \<and>
   length (pairs (fst (startArena_v2 zeros
      (roundsChanged_v2 (Finite (3 / 2))
         ((initial_v2 (Finite 20))\<lparr>images := [alpha1, beta1, alpha2, beta2]\<rparr>))))) = 2"
proof -
  let ?imgs = "[alpha1, beta1, alpha2, beta2]"
  let ?s2 = "roundsChanged_v2 (Finite (3 / 2)) ((initial_v2 (Finite 20))\<lparr>images := ?imgs\<rparr>)"
  have t: "twoModels ?imgs = Some (''alpha'', ''beta'')"
    by (simp add: twoModels_def four_images itemAt_def)
  have i: "ident alpha1 = ''1''" "ident beta1 = ''1''" "ident alpha2 = ''2''" "ident beta2 = ''2''"
    by (simp_all add: alpha1_eq beta1_eq alpha2_eq beta2_eq)
  have s1: "images ((initial (Finite 20))\<lparr>images := ?imgs\<rparr>) = ?imgs" by simp
  have s2: "images ?s2 = ?imgs" by (simp add: roundsChanged_v2_def)
  have r: "rounds ?s2 = Finite (3 / 2)" by (simp add: roundsChanged_v2_def mathMax1_def)
  have k: "idsOf ''alpha'' ?imgs \<inter> idsOf ''beta'' ?imgs = {''1'', ''2''}"
    by (simp add: four_images)
  have cl: "nat \<lceil>min (3 / 2 :: real) (real (card {''1'', ''2''}))\<rceil> = 2" by simp
  note th = matched_ids_and_pair_count[OF t four_images_ids s1 s2 r, of zeros, unfolded k]
  from th have a: "set (commonIds ''alpha'' ''beta'' ?imgs) = {''1'', ''2''}"
    by (rule conjunct1)
  from th have b: "length (pairs (fst (startArena zeros ((initial (Finite 20))\<lparr>images := ?imgs\<rparr>)))) = 2"
    by simp
  from th have "length (pairs (fst (startArena_v2 zeros ?s2)))
                  = nat \<lceil>min (3 / 2 :: real) (real (card {''1'', ''2''}))\<rceil>"
    by simp
  then have c: "length (pairs (fst (startArena_v2 zeros ?s2))) = 2" by (simp only: cl)
  from t i r a b c show ?thesis by blast
qed

text \<open>
  C4 fails where an image of the first model has an identifier that names a member of
  \<^verbatim>\<open>Object.prototype\<close> and the second model has no image with it. Two files are
  picked, \<open>alpha_constructor.png\<close> and \<open>beta_001.png\<close>, and the arena is started. The
  identifiers of the two models have nothing in common, yet the read
  \<^verbatim>\<open>map2["constructor"]\<close> yields the inherited function \<^verbatim>\<open>Object\<close>, which is
  truthy: the start succeeds with one pair, whose right member is that function and not
  an image. Its \<^verbatim>\<open>id\<close> and its \<^verbatim>\<open>model\<close> are undefined.
\<close>

theorem startArena_inherited_key:
  "idsOf ''alpha'' [alphaConstructor, beta1] \<inter> idsOf ''beta'' [alphaConstructor, beta1] = {} \<and>
   run [ImagesLoaded [alphaConstructor, beta1], StartClicked zeros] (initial (Finite 20)) =
     ((initial (Finite 20))\<lparr>images := [alphaConstructor, beta1],
         pairs := [\<lparr>left = Image alphaConstructor, right = Function ''Object''\<rparr>],
         phase := Playing\<rparr>, []) \<and>
   idOf (Image alphaConstructor) = Some ''constructor'' \<and>
   idOf (Function ''Object'') = None \<and> modelOf (Function ''Object'') = None"
proof -
  have m: "models [alphaConstructor, beta1] = [''alpha'', ''beta'']"
    by (simp add: alphaConstructor_eq beta1_eq models_def newSet_def setAdd_def)
  have t: "twoModels [alphaConstructor, beta1] = Some (''alpha'', ''beta'')"
    by (simp add: twoModels_def m itemAt_def)
  have i: "idsOf ''alpha'' [alphaConstructor, beta1] \<inter> idsOf ''beta'' [alphaConstructor, beta1] = {}"
    by (simp add: idsOf_def alphaConstructor_eq beta1_eq)
  have b: "buildMaps ''alpha'' ''beta'' [alphaConstructor, beta1] =
     (\<lparr>own = [(''constructor'', alphaConstructor)], proto = None\<rparr>,
      \<lparr>own = [(''1'', beta1)], proto = None\<rparr>)"
    by (simp add: buildMaps_def alphaConstructor_eq beta1_eq assign_def emptyObject_def)
  have k: "\<not> isArrayIndex ''constructor''" by (simp add: isArrayIndex_def isDigit_def)
  have l: "lookup \<lparr>own = [(''1'', beta1)], proto = None\<rparr> ''constructor'' = Function ''Object''"
    by (simp add: lookup_def fromObjectPrototype_def)
  have c: "commonIds ''alpha'' ''beta'' [alphaConstructor, beta1] = [''constructor'']"
    by (simp add: commonIds_def b objectKeys_def k l)
  have p: "newPairs zeros ''alpha'' ''beta'' [alphaConstructor, beta1] =
             [\<lparr>left = Image alphaConstructor, right = Function ''Object''\<rparr>]"
    by (simp add: newPairs_def b c shuffleArray_def randomLow_def zeros_def lookup_def
        fromObjectPrototype_def)
  have g: "mergeUniqueByUrl [] [alphaConstructor, beta1] = [alphaConstructor, beta1]"
    by (simp add: mergeUniqueByUrl_def newSet_def setAdd_def alphaConstructor_eq beta1_eq)
  have r: "run [ImagesLoaded [alphaConstructor, beta1], StartClicked zeros] (initial (Finite 20)) =
     ((initial (Finite 20))\<lparr>images := [alphaConstructor, beta1],
         pairs := [\<lparr>left = Image alphaConstructor, right = Function ''Object''\<rparr>],
         phase := Playing\<rparr>, [])"
    by (simp add: initial_def g startArena_def t c p)
  have "idOf (Image alphaConstructor) = Some ''constructor''"
    by (simp add: alphaConstructor_eq)
  with i r show ?thesis by simp
qed


section \<open>Properties of the vote log\<close>

lemma consistent_initial: "consistent (initial r)"
  by (simp add: consistent_def initial_def)

lemma consistent_startArena:
  assumes "consistent s" "phase s = Config"
  shows "consistent (fst (startArena rnd s))"
proof (cases "twoModels (images s)")
  case None
  with assms show ?thesis by (simp add: startArena_def)
next
  case (Some ms)
  obtain m1 m2 where ms: "ms = (m1, m2)" by (cases ms)
  show ?thesis
  proof (cases "commonIds m1 m2 (images s) = []")
    case True
    with Some ms assms show ?thesis by (simp add: startArena_def)
  next
    case False
    then have "0 < length (newPairs rnd m1 m2 (images s))" by (simp add: length_newPairs)
    with False Some ms assms show ?thesis
      by (simp add: startArena_def consistent_def)
  qed
qed

lemma consistent_vote:
  assumes "consistent s" "phase s = Playing" "justVoted s = None"
  shows "consistent (vote c s)"
  using assms by (simp add: consistent_def vote_def itemAt_def Let_def)

lemma consistent_timerFired:
  assumes "consistent s"
  shows "consistent (fst (timerFired now s))"
proof (cases "pending s")
  case Nil
  with assms show ?thesis by (simp add: timerFired_def)
next
  case (Cons t ts)
  with assms have p: "phase s = Playing" by (auto simp: consistent_def)
  with assms Cons obtain c where j: "justVoted s = Some c"
    by (cases "justVoted s") (auto simp: consistent_def)
  from assms p j Cons have ts: "ts = []" and t: "nextRound t = current s + 1"
    "pairCount t = length (pairs s)" and v: "length (votesRef s) = current s + 1"
    and c: "current s < length (pairs s)"
    by (auto simp: consistent_def)
  show ?thesis
    using Cons ts t v c p
    by (auto simp: timerFired_def finish_def consistent_def Let_def)
qed

lemma consistent_step:
  assumes "consistent s"
      and "\<forall>key. e = KeyDown key \<and> key \<in> {''ArrowLeft'', ''ArrowRight''} \<longrightarrow> justVoted s = None"
  shows "consistent (fst (step e s))"
proof (cases e)
  case (ImagesLoaded imgs)
  with assms(1) show ?thesis by (auto simp: consistent_def split: option.splits)
next
  case (InstructionsLoaded m)
  with assms(1) show ?thesis by (auto simp: consistent_def split: option.splits)
next
  case ClearClicked
  with assms(1) show ?thesis by (auto simp: consistent_def split: option.splits)
next
  case (StartClicked rnd)
  with assms(1) show ?thesis by (simp add: consistent_startArena)
next
  case (KeyDown key)
  with assms show ?thesis by (auto simp: handleKeyDown_def consistent_vote)
next
  case (VoteClicked c)
  with assms(1) show ?thesis by (simp add: consistent_vote)
next
  case (TimerFired now)
  with assms(1) show ?thesis by (simp add: consistent_timerFired)
next
  case (ZoomChanged z)
  with assms(1) show ?thesis by (auto simp: consistent_def split: option.splits)
next
  case NewSessionClicked
  with assms(1) show ?thesis by (auto simp: consistent_def newSession_def split: option.splits)
qed

lemma consistent_run: "consistent s \<Longrightarrow> calm es s \<Longrightarrow> consistent (fst (run es s))"
proof (induction es arbitrary: s)
  case Nil
  then show ?case by simp
next
  case (Cons e es)
  from Cons.prems(2) have k: "\<forall>key. e = KeyDown key \<and> key \<in> {''ArrowLeft'', ''ArrowRight''}
      \<longrightarrow> justVoted s = None"
    by auto
  from Cons.prems(2) have c: "calm es (fst (step e s))" by simp
  from Cons.IH[OF consistent_step[OF Cons.prems(1) k] c]
  show ?case by (simp add: case_prod_beta)
qed

text \<open>A step never changes a vote of the log; only a start can shorten it, to nothing.\<close>

lemma step_votes:
  "(\<exists>rnd. e = StartClicked rnd) \<or> prefix (votesRef s) (votesRef (fst (step e s)))"
  by (cases e)
     (auto simp: handleKeyDown_def vote_def timerFired_def finish_def newSession_def Let_def
           split: option.splits list.splits)

lemma start_votes:
  "votesRef (fst (step (StartClicked rnd) s)) = [] \<or>
   fst (step (StartClicked rnd) s) = s"
  by (auto simp: startArena_def split: option.splits)

lemma full_log_rejects:
  assumes "consistent s" "length (votesRef s) = length (pairs s)"
  shows "step (VoteClicked c) s = (s, [])"
    and "justVoted s = None \<Longrightarrow> step (KeyDown key) s = (s, [])"
proof -
  from assms have a: "phase s = Playing \<longrightarrow> justVoted s \<noteq> None"
    by (auto simp: consistent_def split: option.splits)
  then show "step (VoteClicked c) s = (s, [])" by auto
  assume "justVoted s = None"
  with a have "phase s \<noteq> Playing" by blast
  then show "step (KeyDown key) s = (s, [])" by (simp add: handleKeyDown_def)
qed


text \<open>
  Between two sessions the log of the finished one stays until the next start, which
  empties it.
\<close>

lemma start_empties_vote_log:
  "phase (fst (run [NewSessionClicked] finishedSession)) = Config \<and>
   length (votesRef (fst (run [NewSessionClicked] finishedSession))) = 1 \<and>
   length (votesRef (fst (run [NewSessionClicked, StartClicked zeros] finishedSession))) = 0"
  by (simp add: finishedSession_eq newSession_def initial_def startArena_def twoModels_ex
      commonIds_ex)

text \<open>
  In every state of a calm run from the initial state (a run in which no arrow key is
  pressed while the tick of a vote shows), the vote log is not longer than the pairs. No
  event removes or changes a recorded vote, except a start, which either fails and
  leaves the state as it is or empties the log. Once the log has as many votes as there
  are pairs, a vote by button is rejected, and so is a vote by key when no tick shows:
  the state stays as it is, and nothing is exported.
\<close>

lemma calm_vote_log:
  assumes "calm es (initial r)"
  shows "length (votesRef (fst (run es (initial r)))) \<le> length (pairs (fst (run es (initial r)))) \<and>
         (\<forall>e. (\<exists>rnd. e = StartClicked rnd \<and>
                  (votesRef (fst (step e (fst (run es (initial r))))) = [] \<or>
                   fst (step e (fst (run es (initial r)))) = fst (run es (initial r)))) \<or>
              prefix (votesRef (fst (run es (initial r))))
                     (votesRef (fst (step e (fst (run es (initial r))))))) \<and>
         (length (votesRef (fst (run es (initial r)))) = length (pairs (fst (run es (initial r)))) \<longrightarrow>
            (\<forall>c. step (VoteClicked c) (fst (run es (initial r))) = (fst (run es (initial r)), [])) \<and>
            (justVoted (fst (run es (initial r))) = None \<longrightarrow>
               (\<forall>key. step (KeyDown key) (fst (run es (initial r))) = (fst (run es (initial r)), []))))"
proof -
  define s where "s = fst (run es (initial r))"
  have c: "consistent s"
    unfolding s_def by (rule consistent_run[OF consistent_initial assms])
  have 1: "length (votesRef s) \<le> length (pairs s)"
    by (rule c[unfolded consistent_def, THEN conjunct1])
  have 2: "\<forall>e. (\<exists>rnd. e = StartClicked rnd \<and>
                  (votesRef (fst (step e s)) = [] \<or> fst (step e s) = s)) \<or>
              prefix (votesRef s) (votesRef (fst (step e s)))"
  proof
    fix e
    show "(\<exists>rnd. e = StartClicked rnd \<and>
                  (votesRef (fst (step e s)) = [] \<or> fst (step e s) = s)) \<or>
              prefix (votesRef s) (votesRef (fst (step e s)))"
    proof (cases "\<exists>rnd. e = StartClicked rnd")
      case True
      then obtain rnd where e: "e = StartClicked rnd" ..
      have "votesRef (fst (step e s)) = [] \<or> fst (step e s) = s"
        unfolding e by (rule start_votes)
      with e show ?thesis by blast
    next
      case False
      with step_votes[of e s] show ?thesis by blast
    qed
  qed
  have 3: "length (votesRef s) = length (pairs s) \<longrightarrow>
            (\<forall>c. step (VoteClicked c) s = (s, [])) \<and>
            (justVoted s = None \<longrightarrow> (\<forall>key. step (KeyDown key) s = (s, [])))"
  proof (intro impI conjI allI)
    fix ch
    assume l: "length (votesRef s) = length (pairs s)"
    show "step (VoteClicked ch) s = (s, [])" by (rule full_log_rejects(1)[OF c l])
  next
    fix key
    assume l: "length (votesRef s) = length (pairs s)" and j: "justVoted s = None"
    show "step (KeyDown key) s = (s, [])" by (rule full_log_rejects(2)[OF c l j])
  qed
  from 1 2 3 show ?thesis unfolding s_def by (intro conjI)
qed

lemma votedOnce: "vote Left playingSession =
   playingSession\<lparr>votesRef := [firstVote], justVoted := Some Left,
     pending := [\<lparr>nextRound = 1, pairCount = 1, seenModels = [''alpha'', ''beta''], seenRounds = Finite 20\<rparr>]\<rparr>"
  by (simp add: playingSession_eq initial_def vote_def itemAt_def firstVote_def model_alpha1 models_ex)

lemma votedTwice: "vote Left (vote Left playingSession) =
   playingSession\<lparr>votesRef := [firstVote, firstVote], justVoted := Some Left,
     pending := [\<lparr>nextRound = 1, pairCount = 1, seenModels = [''alpha'', ''beta''], seenRounds = Finite 20\<rparr>,
                 \<lparr>nextRound = 1, pairCount = 1, seenModels = [''alpha'', ''beta''], seenRounds = Finite 20\<rparr>]\<rparr>"
  unfolding votedOnce
  by (simp add: playingSession_eq initial_def vote_def itemAt_def firstVote_def model_alpha1 models_ex)

lemma step_load:
  "step (ImagesLoaded [alpha1, beta1]) (initial (Finite 20)) = ((initial (Finite 20))\<lparr>images := [alpha1, beta1]\<rparr>, [])"
  by (simp add: merge_ex initial_def)

lemma step_start:
  "step (StartClicked zeros) ((initial (Finite 20))\<lparr>images := [alpha1, beta1]\<rparr>) = (playingSession, [])"
  by (simp add: initial_def startArena_def twoModels_ex commonIds_ex newPairs_ex playingSession_eq)

lemma step_key: "step (KeyDown ''ArrowLeft'') playingSession = (vote Left playingSession, [])"
  by (simp add: handleKeyDown_def playingSession_eq initial_def)

lemma step_key2:
  "step (KeyDown ''ArrowLeft'') (vote Left playingSession) = (vote Left (vote Left playingSession), [])"
  unfolding votedOnce by (simp add: handleKeyDown_def playingSession_eq initial_def)

lemma step_click: "step (VoteClicked Left) playingSession = (vote Left playingSession, [])"
  by (simp add: playingSession_eq initial_def)

lemma step_timer: "fst (step (TimerFired 0) (vote Left playingSession)) = finishedSession"
  unfolding votedOnce
  by (simp add: timerFired_def finish_def Let_def finishedSession_eq playingSession_eq
      initial_def)

lemma phase_playing: "phase playingSession = Playing" "justVoted playingSession = None"
  by (simp_all add: playingSession_eq initial_def)


lemma timers_of_two_presses:
  "exported (snd (run [TimerFired 0, TimerFired 1] (vote Left (vote Left playingSession)))) = 2"
  unfolding votedTwice
  by (simp add: exported_def timerFired_def finish_def Let_def playingSession_eq initial_def)

lemma calm_vote_log_example:
  "calm [ImagesLoaded [alpha1, beta1], StartClicked zeros, KeyDown ''ArrowLeft'', TimerFired 0] (initial (Finite 20)) \<and>
   fst (run [ImagesLoaded [alpha1, beta1], StartClicked zeros, KeyDown ''ArrowLeft'', TimerFired 0] (initial (Finite 20)))
     = finishedSession \<and>
   length (votesRef finishedSession) = 1 \<and> length (pairs finishedSession) = 1 \<and>
   step (VoteClicked Right) finishedSession = (finishedSession, []) \<and>
   step (KeyDown ''ArrowRight'') finishedSession = (finishedSession, [])"
proof -
  let ?es = "[ImagesLoaded [alpha1, beta1], StartClicked zeros, KeyDown ''ArrowLeft'', TimerFired 0]"
  have c: "calm ?es (initial (Finite 20))"
    by (simp add: step_load step_start step_key phase_playing del: step.simps)
  have f: "fst (run ?es (initial (Finite 20))) = finishedSession"
    by (simp add: step_load step_start step_key step_timer case_prod_beta del: step.simps)
  have l: "length (votesRef finishedSession) = 1" "length (pairs finishedSession) = 1"
    "justVoted finishedSession = None"
    by (simp_all add: finishedSession_eq initial_def)
  note t = calm_vote_log[OF c, unfolded f]
  from t l have v1: "step (VoteClicked Right) finishedSession = (finishedSession, [])"
    by (simp only: simp_thms)
  from t l have v2: "step (KeyDown ''ArrowRight'') finishedSession = (finishedSession, [])"
    by (simp only: simp_thms)
  show ?thesis
    apply (intro conjI)
         apply (rule c)
        apply (rule f)
       apply (rule l(1))
      apply (rule l(2))
     apply (rule v1)
    apply (rule v2)
    done
qed

text \<open>
  C2 fails for a second press of an arrow key while the tick of the first shows. Two
  files are picked, one of each model with the same identifier, and the arena is
  started: there is one pair. The first press of the left arrow records a vote, so the
  log has as many votes as there are pairs, and arms the timer. The key handler does
  not look at the tick, as the buttons do (\<^verbatim>\<open>disabled={!!justVoted}\<close>), and the cursor
  is still on the pair, so a second press before the timer fires is not rejected: the
  log then has two votes for the one pair. Each of the two timers finishes the session,
  and the result is exported twice.
\<close>

theorem two_presses_in_one_tick:
  "length (pairs (fst (run [ImagesLoaded [alpha1, beta1], StartClicked zeros,
                            KeyDown ''ArrowLeft''] (initial (Finite 20))))) = 1 \<and>
   length (votesRef (fst (run [ImagesLoaded [alpha1, beta1], StartClicked zeros,
                               KeyDown ''ArrowLeft''] (initial (Finite 20))))) = 1 \<and>
   justVoted (fst (run [ImagesLoaded [alpha1, beta1], StartClicked zeros,
                        KeyDown ''ArrowLeft''] (initial (Finite 20)))) = Some Left \<and>
   length (pairs (fst (run [ImagesLoaded [alpha1, beta1], StartClicked zeros,
                            KeyDown ''ArrowLeft'', KeyDown ''ArrowLeft''] (initial (Finite 20))))) = 1 \<and>
   length (votesRef (fst (run [ImagesLoaded [alpha1, beta1], StartClicked zeros,
                               KeyDown ''ArrowLeft'', KeyDown ''ArrowLeft''] (initial (Finite 20))))) = 2 \<and>
   exported (snd (run [ImagesLoaded [alpha1, beta1], StartClicked zeros,
                       KeyDown ''ArrowLeft'', KeyDown ''ArrowLeft'', TimerFired 0, TimerFired 1]
                    (initial (Finite 20)))) = 2"
proof -
  have r1: "fst (run [ImagesLoaded [alpha1, beta1], StartClicked zeros, KeyDown ''ArrowLeft'']
                  (initial (Finite 20))) = vote Left playingSession"
    by (simp add: step_load step_start step_key del: step.simps)
  have r2: "fst (run [ImagesLoaded [alpha1, beta1], StartClicked zeros, KeyDown ''ArrowLeft'',
                      KeyDown ''ArrowLeft''] (initial (Finite 20)))
              = vote Left (vote Left playingSession)"
    by (simp add: step_load step_start step_key step_key2 del: step.simps)
  have r3: "run [ImagesLoaded [alpha1, beta1], StartClicked zeros, KeyDown ''ArrowLeft'',
                 KeyDown ''ArrowLeft'', TimerFired 0, TimerFired 1] (initial (Finite 20))
              = run [TimerFired 0, TimerFired 1] (vote Left (vote Left playingSession))"
    by (simp add: step_load step_start step_key step_key2 del: step.simps)
  have 1: "length (pairs (vote Left playingSession)) = 1"
    "length (votesRef (vote Left playingSession)) = 1"
    "justVoted (vote Left playingSession) = Some Left"
    unfolding votedOnce by (simp_all add: playingSession_eq initial_def)
  have 2: "length (pairs (vote Left (vote Left playingSession))) = 1"
    "length (votesRef (vote Left (vote Left playingSession))) = 2"
    unfolding votedTwice by (simp_all add: playingSession_eq initial_def)
  show ?thesis
    unfolding r1 r2 r3
    apply (intro conjI)
         apply (rule 1(1))
        apply (rule 1(2))
       apply (rule 1(3))
      apply (rule 2(1))
     apply (rule 2(2))
    apply (rule timers_of_two_presses)
    done
qed

section \<open>A session with an inherited key\<close>

text \<open>
  The files \<open>alpha_constructor.png\<close> and \<open>beta_001.png\<close> are picked: the models are
  \<open>alpha\<close> and \<open>beta\<close>, the identifiers \<open>constructor\<close> and \<open>1\<close>. No identifier is
  shared, yet the read \<^verbatim>\<open>map2["constructor"]\<close> yields the function \<^verbatim>\<open>Object\<close> that
  every plain object inherits, and the test \<^verbatim>\<open>(id) => map2[id]\<close> keeps the identifier.
\<close>

lemma inherited_models: "models [alphaConstructor, beta1] = [''alpha'', ''beta'']"
  by (simp add: alphaConstructor_eq beta1_eq models_def newSet_def setAdd_def)

lemma inherited_twoModels: "twoModels [alphaConstructor, beta1] = Some (''alpha'', ''beta'')"
  by (simp add: twoModels_def inherited_models itemAt_def)

lemma inherited_ids:
  "idsOf ''alpha'' [alphaConstructor, beta1] \<inter> idsOf ''beta'' [alphaConstructor, beta1] = {}"
  by (simp add: idsOf_def alphaConstructor_eq beta1_eq)

lemma inherited_buildMaps:
  "buildMaps ''alpha'' ''beta'' [alphaConstructor, beta1] =
     (\<lparr>own = [(''constructor'', alphaConstructor)], proto = None\<rparr>,
      \<lparr>own = [(''1'', beta1)], proto = None\<rparr>)"
  by (simp add: buildMaps_def alphaConstructor_eq beta1_eq assign_def emptyObject_def)

lemma inherited_lookup:
  "lookup \<lparr>own = [(''1'', beta1)], proto = None\<rparr> ''constructor'' = Function ''Object''"
  by (simp add: lookup_def fromObjectPrototype_def)

lemma inherited_commonIds: "commonIds ''alpha'' ''beta'' [alphaConstructor, beta1] = [''constructor'']"
proof -
  have k: "\<not> isArrayIndex ''constructor''" by (simp add: isArrayIndex_def isDigit_def)
  show ?thesis by (simp add: commonIds_def inherited_buildMaps objectKeys_def k inherited_lookup)
qed

lemma inherited_newPairs:
  "newPairs zeros ''alpha'' ''beta'' [alphaConstructor, beta1] =
     [\<lparr>left = Image alphaConstructor, right = Function ''Object''\<rparr>]"
  by (simp add: newPairs_def inherited_buildMaps inherited_commonIds shuffleArray_def
      randomLow_def zeros_def lookup_def fromObjectPrototype_def)

lemma inherited_merge:
  "mergeUniqueByUrl [] [alphaConstructor, beta1] = [alphaConstructor, beta1]"
  by (simp add: mergeUniqueByUrl_def newSet_def setAdd_def alphaConstructor_eq beta1_eq)

lemma inherited_start:
  "startArena zeros ((initial (Finite 20))\<lparr>images := [alphaConstructor, beta1]\<rparr>) =
     ((initial (Finite 20))\<lparr>images := [alphaConstructor, beta1],
         pairs := [\<lparr>left = Image alphaConstructor, right = Function ''Object''\<rparr>],
         phase := Playing\<rparr>, [])"
  by (simp add: initial_def startArena_def inherited_twoModels inherited_commonIds
      inherited_newPairs)

lemma inherited_newPairs_v2:
  "newPairs_v2 zeros (Finite 20) ''alpha'' ''beta'' [alphaConstructor, beta1] =
     [\<lparr>left = Image alphaConstructor, right = Function ''Object''\<rparr>]"
  by (simp add: newPairs_v2_def inherited_buildMaps inherited_commonIds
      mathMin_def below_def randomLow_def zeros_def lookup_def fromObjectPrototype_def)

text \<open>
  Two starts that do fail, for comparison: with one file there is one model only, and
  with \<open>alpha_001.png\<close> and \<open>beta_002.png\<close> no identifier is matched. Each shows its
  error and leaves the state as it was.
\<close>

lemma startArena_failures:
  "step (StartClicked zeros) ((initial (Finite 20))\<lparr>images := [alpha1]\<rparr>) =
     ((initial (Finite 20))\<lparr>images := [alpha1]\<rparr>, [ToastError needTwoModels]) \<and>
   idsOf ''alpha'' [alpha1, beta2] \<inter> idsOf ''beta'' [alpha1, beta2] = {} \<and>
   step (StartClicked zeros) ((initial (Finite 20))\<lparr>images := [alpha1, beta2]\<rparr>) =
     ((initial (Finite 20))\<lparr>images := [alpha1, beta2]\<rparr>, [ToastError noMatchingPairs])"
proof -
  have m1: "models [alpha1] = [''alpha'']"
    by (simp add: alpha1_eq models_def newSet_def setAdd_def)
  have 1: "step (StartClicked zeros) ((initial (Finite 20))\<lparr>images := [alpha1]\<rparr>) =
     ((initial (Finite 20))\<lparr>images := [alpha1]\<rparr>, [ToastError needTwoModels])"
    by (simp add: initial_def startArena_def twoModels_def m1 itemAt_def)
  have m2: "models [alpha1, beta2] = [''alpha'', ''beta'']"
    by (simp add: alpha1_eq beta2_eq models_def newSet_def setAdd_def)
  have t: "twoModels [alpha1, beta2] = Some (''alpha'', ''beta'')"
    by (simp add: twoModels_def m2 itemAt_def)
  have i: "idsOf ''alpha'' [alpha1, beta2] \<inter> idsOf ''beta'' [alpha1, beta2] = {}"
    by (simp add: idsOf_def alpha1_eq beta2_eq)
  have b: "buildMaps ''alpha'' ''beta'' [alpha1, beta2] =
     (\<lparr>own = [(''1'', alpha1)], proto = None\<rparr>, \<lparr>own = [(''2'', beta2)], proto = None\<rparr>)"
    by (simp add: buildMaps_def alpha1_eq beta2_eq assign_def emptyObject_def)
  have c: "commonIds ''alpha'' ''beta'' [alpha1, beta2] = []"
    by (simp add: commonIds_def b objectKeys_def isArrayIndex_1 lookup_def
        fromObjectPrototype_def prototypeFunctions_def)
  have 2: "step (StartClicked zeros) ((initial (Finite 20))\<lparr>images := [alpha1, beta2]\<rparr>) =
     ((initial (Finite 20))\<lparr>images := [alpha1, beta2]\<rparr>, [ToastError noMatchingPairs])"
    by (simp add: initial_def startArena_def t c)
  from 1 i 2 show ?thesis by (intro conjI)
qed

text \<open>
  C9 fails for a start with no matched identifier that the code does not see as one.
  In the configuration phase, with the two files above, two models are detected and the
  identifiers of the one and of the other have nothing in common. The start reports no
  error: it sets the pairs, to one pair, and enters the playing phase.
\<close>

theorem startArena_without_common_id:
  "phase ((initial (Finite 20))\<lparr>images := [alphaConstructor, beta1]\<rparr>) = Config \<and>
   pairs ((initial (Finite 20))\<lparr>images := [alphaConstructor, beta1]\<rparr>) = [] \<and>
   twoModels [alphaConstructor, beta1] = Some (''alpha'', ''beta'') \<and>
   idsOf ''alpha'' [alphaConstructor, beta1] \<inter> idsOf ''beta'' [alphaConstructor, beta1] = {} \<and>
   startArena zeros ((initial (Finite 20))\<lparr>images := [alphaConstructor, beta1]\<rparr>) =
     ((initial (Finite 20))\<lparr>images := [alphaConstructor, beta1],
         pairs := [\<lparr>left = Image alphaConstructor, right = Function ''Object''\<rparr>],
         phase := Playing\<rparr>, [])"
proof -
  have "phase ((initial (Finite 20))\<lparr>images := [alphaConstructor, beta1]\<rparr>) = Config"
    and "pairs ((initial (Finite 20))\<lparr>images := [alphaConstructor, beta1]\<rparr>) = []"
    by (simp_all add: initial_def)
  with inherited_twoModels inherited_ids inherited_start show ?thesis by (intro conjI)
qed

text \<open>
  C3 fails for the log of that session. The one pair has the image of \<open>alpha\<close> on the
  left and the function on the right. A vote for the right member records no winner,
  since the function has no \<^verbatim>\<open>model\<close>, and \<^verbatim>\<open>if (v.winnerModel)\<close> counts it for
  nobody. The exported result has one completed round and no win, no tie and no round
  with both bad: the counts add up to 0, not to 1. This is so in the current variant,
  where the timer of the vote finishes the session, and in the second, where the vote
  itself does.
\<close>

theorem finish_misses_vote:
  "snd (run [ImagesLoaded [alphaConstructor, beta1], StartClicked zeros, VoteClicked Right,
             TimerFired 0] (initial (Finite 20))) =
     [ToastSuccess ''Result: tie'',
      Download 0
        \<lparr>timestamp = 0, resultModels = (Some ''alpha'', Some ''beta''),
           roundsPlanned = Finite 20, roundsCompleted = 1,
           winsByModel = [(''alpha'', Num 0), (''beta'', Num 0)], ties = 0, bothBad = 0,
           votes =
             [\<lparr>roundNo = 1,
                 voteLeft = \<lparr>snapName = Some ''alpha_constructor.png'',
                               snapModel = Some ''alpha'', snapId = Some ''constructor''\<rparr>,
                 voteRight = \<lparr>snapName = Some ''Object'', snapModel = None, snapId = None\<rparr>,
                 choice = Right, winnerModel = None\<rparr>]\<rparr>
        (Some ''tie'')] \<and>
   snd (vote_v2 0 VRight
          (fst (startArena_v2 zeros
                  ((initial_v2 (Finite 20))\<lparr>images := [alphaConstructor, beta1]\<rparr>)))) =
     [ToastSuccess ''Result: tie'',
      Download 0
        \<lparr>timestamp = 0, resultModels = (Some ''alpha'', Some ''beta''),
           roundsPlanned = Finite 20, roundsCompleted = 1,
           winsByModel = [(''alpha'', Num 0), (''beta'', Num 0)], ties = 0, bothBad = 0,
           votes =
             [\<lparr>roundNo = 1,
                 voteLeft = \<lparr>snapName = Some ''alpha_constructor.png'',
                               snapModel = Some ''alpha'', snapId = Some ''constructor''\<rparr>,
                 voteRight = \<lparr>snapName = Some ''Object'', snapModel = None, snapId = None\<rparr>,
                 choice = VRight, winnerModel = None\<rparr>]\<rparr>
        (Some ''tie'')]"
proof -
  have n: "name alphaConstructor = ''alpha_constructor.png''" "model alphaConstructor = ''alpha''"
    "ident alphaConstructor = ''constructor''"
    by (simp_all add: alphaConstructor_eq)
  have 1: "snd (run [ImagesLoaded [alphaConstructor, beta1], StartClicked zeros, VoteClicked Right,
             TimerFired 0] (initial (Finite 20))) =
     [ToastSuccess ''Result: tie'',
      Download 0
        \<lparr>timestamp = 0, resultModels = (Some ''alpha'', Some ''beta''),
           roundsPlanned = Finite 20, roundsCompleted = 1,
           winsByModel = [(''alpha'', Num 0), (''beta'', Num 0)], ties = 0, bothBad = 0,
           votes =
             [\<lparr>roundNo = 1,
                 voteLeft = \<lparr>snapName = Some ''alpha_constructor.png'',
                               snapModel = Some ''alpha'', snapId = Some ''constructor''\<rparr>,
                 voteRight = \<lparr>snapName = Some ''Object'', snapModel = None, snapId = None\<rparr>,
                 choice = Right, winnerModel = None\<rparr>]\<rparr>
        (Some ''tie'')]"
    by (simp add: inherited_merge initial_def startArena_def inherited_twoModels
        inherited_commonIds inherited_newPairs vote_def itemAt_def timerFired_def finish_def
        arenaResult_def Let_def inherited_models snapshotOf_def n initialWins_def keyOf_def
        countWinner_def overallWinner_def readWins_def winnerToast_def)
  have 2: "snd (vote_v2 0 VRight
          (fst (startArena_v2 zeros
                  ((initial_v2 (Finite 20))\<lparr>images := [alphaConstructor, beta1]\<rparr>)))) =
     [ToastSuccess ''Result: tie'',
      Download 0
        \<lparr>timestamp = 0, resultModels = (Some ''alpha'', Some ''beta''),
           roundsPlanned = Finite 20, roundsCompleted = 1,
           winsByModel = [(''alpha'', Num 0), (''beta'', Num 0)], ties = 0, bothBad = 0,
           votes =
             [\<lparr>roundNo = 1,
                 voteLeft = \<lparr>snapName = Some ''alpha_constructor.png'',
                               snapModel = Some ''alpha'', snapId = Some ''constructor''\<rparr>,
                 voteRight = \<lparr>snapName = Some ''Object'', snapModel = None, snapId = None\<rparr>,
                 choice = VRight, winnerModel = None\<rparr>]\<rparr>
        (Some ''tie'')]"
    by (simp add: initial_v2_def startArena_v2_def inherited_twoModels
        inherited_commonIds inherited_newPairs_v2 vote_v2_def itemAt_def finish_v2_def
        arenaResult_v2_def Let_def inherited_models snapshotOf_def n initialWins_def keyOf_def
        countVote_v2_def countWinner_def overallWinner_def readWins_def winnerToast_def)
  from 1 2 show ?thesis by (rule conjI)
qed

end
